theory Spec2Isabelle
  imports
    Complex_Main
    "HOL-Library.AList"
    "HOL-Library.Multiset"
    "HOL-Library.Product_Lexorder"
    "HOL-Library.List_Lexorder"
begin

section \<open>The torrent coordinator of torrentmgr.py\<close>

text \<open>
  The theory embeds the class \<^verbatim>\<open>TorrentMgr\<close> of \<^verbatim>\<open>src/torrentmgr.py\<close>. The object's
  attributes are the fields of a record, a method is a function from the record to an
  outcome (the record after the call, together with the exception when one was raised),
  a Python \<^verbatim>\<open>dict\<close> is an association list with distinct keys, a \<^verbatim>\<open>BitArray\<close> is a
  list of booleans and a \<^verbatim>\<open>hashlib.sha1\<close> object is the string of bytes it has been fed.
\<close>

subsection \<open>Data\<close>

text \<open>A peer is a \<^verbatim>\<open>PeerProxy\<close> object, known by its identity.\<close>

type_synonym peer = nat

type_synonym bitarray = "bool list"

text \<open>The state of a rolling \<^verbatim>\<open>hashlib.sha1()\<close>: the bytes passed to \<^verbatim>\<open>update\<close> so far.\<close>

type_synonym sha1 = string

text \<open>The tuples kept in \<^verbatim>\<open>_interested\<close>, \<^verbatim>\<open>_requesting\<close> and \<^verbatim>\<open>_partial\<close>.\<close>

type_synonym reservation = "nat \<times> int \<times> sha1 \<times> int"
type_synonym active_request = "nat \<times> int \<times> sha1 \<times> int \<times> int"
type_synonym partial_piece = "nat \<times> int \<times> sha1"

datatype error =
  TorrentMgrError | ValueError | IOError | KeyError | IndexError | AttributeError
  | ZeroDivisionError | AlreadyCalledError

datatype states = Uninitialized | Initialized | Started

text \<open>
  The attributes of \<^verbatim>\<open>Metainfo\<close> that the coordinator reads (the class itself lives in
  another module).
\<close>

record metainfo =
  num_pieces :: nat
  piece_length :: int
  total_length :: int
  piece_hash :: "nat \<Rightarrow> string"
  info_hash_of :: string
  name_of :: string

text \<open>What the coordinator asks of its collaborators, in the order it asks.\<close>

datatype command =
  SendInterested peer
  | SendNotInterested peer
  | SendRequest peer nat int int
  | DropConnection peer
  | GetPeers nat
  | WriteBlock nat int string
  | CallLater
  | TrackerStart
  | CompletionCallback

text \<open>
  The fields up to \<open>tick\<close> are the attributes of the object. \<open>metainfo\<close> is \<open>None\<close>
  as long as the attribute \<^verbatim>\<open>_metainfo\<close> has not been created; \<open>completionDeferred\<close>
  is \<open>None\<close> for Python's \<^verbatim>\<open>None\<close>, and otherwise tells whether the deferred has fired.
  The attributes that \<^verbatim>\<open>initialize\<close> and \<^verbatim>\<open>start\<close> create hold a value from then on.
  The last three fields are the collaborators: the flags each \<^verbatim>\<open>PeerProxy\<close> keeps and
  the commands issued so far.
\<close>

record torrentmgr =
  state :: states
  completionDeferred :: "bool option"
  metainfo :: "metainfo option"
  peers :: "peer list"
  bitfields :: "(peer \<times> bitarray) list"
  have_bits :: bitarray
  needed :: "(nat \<times> (int \<times> peer list)) list"
  interested :: "(peer \<times> reservation) list"
  requesting :: "(peer \<times> active_request) list"
  partial :: "partial_piece list"
  tick :: int
  pp_interested :: "peer set"
  pp_choked :: "peer set"
  sent :: "command list"

text \<open>A call returns, or raises with the object as the exception left it.\<close>

datatype outcome = Returned torrentmgr | Raised error torrentmgr

fun state_of :: "outcome \<Rightarrow> torrentmgr" where
  "state_of (Returned s) = s"
| "state_of (Raised e s) = s"

fun raised :: "outcome \<Rightarrow> error option" where
  "raised (Returned s) = None"
| "raised (Raised e s) = Some e"

text \<open>Sequencing of two statements: an exception skips what follows.\<close>

fun then_do :: "outcome \<Rightarrow> (torrentmgr \<Rightarrow> outcome) \<Rightarrow> outcome" where
  "then_do (Returned s) f = f s"
| "then_do (Raised e s) f = Raised e s"

text \<open>Reading \<^verbatim>\<open>self._metainfo\<close>.\<close>

definition with_metainfo :: "torrentmgr \<Rightarrow> (metainfo \<Rightarrow> outcome) \<Rightarrow> outcome" where
  "with_metainfo s f = (case metainfo s of None \<Rightarrow> Raised AttributeError s | Some mi \<Rightarrow> f mi)"

subsection \<open>Dictionaries and bit arrays\<close>

definition has_key :: "'k \<Rightarrow> ('k \<times> 'v) list \<Rightarrow> bool" where
  "has_key k d = (map_of d k \<noteq> None)"

text \<open>\<^verbatim>\<open>list(b.findall('0b1'))\<close> and \<^verbatim>\<open>list(b.findall('0b0'))\<close>: the positions of a bit value.\<close>

definition findall :: "bool \<Rightarrow> bitarray \<Rightarrow> nat list" where
  "findall v b = filter (\<lambda>i. b ! i = v) [0..<length b]"

definition invert :: "bitarray \<Rightarrow> bitarray" where
  "invert b = map Not b"

text \<open>\<^verbatim>\<open>a & b\<close> on bit arrays of one length (\<^verbatim>\<open>bitstring\<close> raises ValueError otherwise).\<close>

definition bit_and :: "bitarray \<Rightarrow> bitarray \<Rightarrow> bitarray" where
  "bit_and a b = map (\<lambda>(x, y). x \<and> y) (zip a b)"

subsection \<open>Constants\<close>

definition BLOCK_SIZE :: int where
  "BLOCK_SIZE = 2 ^ 14"

definition MAX_RETRIES :: int where
  "MAX_RETRIES = 2"

subsection \<open>Piece and block lengths\<close>

definition is_last_piece :: "metainfo \<Rightarrow> nat \<Rightarrow> bool" where
  "is_last_piece mi index = (int index = int (num_pieces mi) - 1)"

definition length_of_last_piece :: "metainfo \<Rightarrow> int" where
  "length_of_last_piece mi =
     total_length mi - (int (num_pieces mi) - 1) * piece_length mi"

definition length_of_piece :: "metainfo \<Rightarrow> nat \<Rightarrow> int" where
  "length_of_piece mi index =
     (if is_last_piece mi index then length_of_last_piece mi else piece_length mi)"

definition in_last_block :: "metainfo \<Rightarrow> nat \<Rightarrow> int \<Rightarrow> bool" where
  "in_last_block mi index offset =
     (let piece_len = (if is_last_piece mi index then length_of_last_piece mi
                       else piece_length mi)
      in piece_len - offset < BLOCK_SIZE)"

definition bytes_to_request :: "metainfo \<Rightarrow> nat \<Rightarrow> int \<Rightarrow> int" where
  "bytes_to_request mi index offset =
     (if \<not> in_last_block mi index offset then BLOCK_SIZE
      else length_of_piece mi index - offset)"

subsection \<open>The collaborators\<close>

text \<open>
  Modelled from the spec: the class \<^verbatim>\<open>PeerProxy\<close> (module \<^verbatim>\<open>peerproxy\<close>) is not part of
  the source at hand. The spec lists its commands \<^verbatim>\<open>interested()\<close>, \<^verbatim>\<open>not_interested()\<close>,
  \<^verbatim>\<open>request(piece, offset, length)\<close>, \<^verbatim>\<open>drop_connection()\<close> and its inspection
  predicates \<^verbatim>\<open>is_interested()\<close> and \<^verbatim>\<open>is_peer_choked()\<close>. A command is recorded in
  \<open>sent\<close>; the two interest commands set and clear the flag that \<^verbatim>\<open>is_interested()\<close>
  reads. The choke flag is the peer's own; only the environment changes it.
\<close>

definition PeerProxy_is_interested :: "peer \<Rightarrow> torrentmgr \<Rightarrow> bool" where
  "PeerProxy_is_interested peer s = (peer \<in> pp_interested s)"

definition PeerProxy_is_peer_choked :: "peer \<Rightarrow> torrentmgr \<Rightarrow> bool" where
  "PeerProxy_is_peer_choked peer s = (peer \<in> pp_choked s)"

definition PeerProxy_interested :: "peer \<Rightarrow> torrentmgr \<Rightarrow> torrentmgr" where
  "PeerProxy_interested peer s =
     s\<lparr>pp_interested := insert peer (pp_interested s), sent := sent s @ [SendInterested peer]\<rparr>"

definition PeerProxy_not_interested :: "peer \<Rightarrow> torrentmgr \<Rightarrow> torrentmgr" where
  "PeerProxy_not_interested peer s =
     s\<lparr>pp_interested := pp_interested s - {peer},
       sent := sent s @ [SendNotInterested peer]\<rparr>"

definition PeerProxy_request :: "peer \<Rightarrow> nat \<Rightarrow> int \<Rightarrow> int \<Rightarrow> torrentmgr \<Rightarrow> torrentmgr" where
  "PeerProxy_request peer index offset len s =
     s\<lparr>sent := sent s @ [SendRequest peer index offset len]\<rparr>"

definition PeerProxy_drop_connection :: "peer \<Rightarrow> torrentmgr \<Rightarrow> torrentmgr" where
  "PeerProxy_drop_connection peer s = s\<lparr>sent := sent s @ [DropConnection peer]\<rparr>"

text \<open>
  Modelled from the spec: \<^verbatim>\<open>FileMgr.write_block(piece, offset, bytes)\<close> (module
  \<^verbatim>\<open>filemgr\<close>) commits a block to disk; the call is recorded.
\<close>

definition FileMgr_write_block :: "nat \<Rightarrow> int \<Rightarrow> string \<Rightarrow> torrentmgr \<Rightarrow> torrentmgr" where
  "FileMgr_write_block index offset buf s = s\<lparr>sent := sent s @ [WriteBlock index offset buf]\<rparr>"

text \<open>
  \<^verbatim>\<open>Deferred.callback\<close> of Twisted on \<^verbatim>\<open>_completionDeferred\<close>: \<^verbatim>\<open>None\<close> has no such
  attribute, and a deferred fires once.
\<close>

definition completion_callback :: "torrentmgr \<Rightarrow> outcome" where
  "completion_callback s =
     (case completionDeferred s of
        None \<Rightarrow> Raised AttributeError s
      | Some True \<Rightarrow> Raised AlreadyCalledError s
      | Some False \<Rightarrow>
          Returned (s\<lparr>completionDeferred := Some True, sent := sent s @ [CompletionCallback]\<rparr>))"

subsection \<open>The peer pool\<close>

text \<open>
  \<^verbatim>\<open>_connect_to_peers(n)\<close> asks the tracker for \<open>n\<close> addresses; the answer arrives later,
  as a call of \<^verbatim>\<open>handle_addrs\<close>. Each address gives a new \<^verbatim>\<open>PeerProxy\<close>, here the next
  element of the list, which starts out not interested and choked.
\<close>

definition connect_to_peers :: "nat \<Rightarrow> torrentmgr \<Rightarrow> outcome" where
  "connect_to_peers n s = Returned (s\<lparr>sent := sent s @ [GetPeers n]\<rparr>)"

fun handle_addrs :: "peer list \<Rightarrow> torrentmgr \<Rightarrow> outcome" where
  "handle_addrs [] s = Returned s"
| "handle_addrs (peer # addrs) s =
     with_metainfo s (\<lambda>mi.
       handle_addrs addrs
         (s\<lparr>peers := peers s @ [peer],
            bitfields := AList.update peer (replicate (num_pieces mi) False) (bitfields s),
            pp_interested := pp_interested s - {peer},
            pp_choked := insert peer (pp_choked s)\<rparr>))"

text \<open>The loop of \<^verbatim>\<open>_remove_peer\<close> over the pieces of the peer's bitfield.\<close>

fun remove_peer_pieces ::
  "peer \<Rightarrow> nat list \<Rightarrow> (nat \<times> (int \<times> peer list)) list \<Rightarrow> (nat \<times> (int \<times> peer list)) list"
where
  "remove_peer_pieces peer [] nd = nd"
| "remove_peer_pieces peer (piece # pieces) nd =
     remove_peer_pieces peer pieces
       (case map_of nd piece of
          None \<Rightarrow> nd
        | Some (occurences, prs) \<Rightarrow>
            if peer \<in> set prs
            then AList.update piece (occurences - 1, remove1 peer prs) nd
            else nd)"

text \<open>
  The end of \<^verbatim>\<open>_remove_peer\<close> and the whole of \<^verbatim>\<open>peer_choked\<close>: an interested peer
  loses its reservation, a requesting peer's progress goes to the partial list.
\<close>

definition release :: "peer \<Rightarrow> torrentmgr \<Rightarrow> torrentmgr" where
  "release peer s =
     (if has_key peer (interested s)
      then s\<lparr>interested := AList.delete peer (interested s)\<rparr>
      else (case map_of (requesting s) peer of
              Some (index, offset, sha1, _, _) \<Rightarrow>
                s\<lparr>partial := partial s @ [(index, offset, sha1)],
                  requesting := AList.delete peer (requesting s)\<rparr>
            | None \<Rightarrow> s))"

definition remove_peer :: "peer \<Rightarrow> torrentmgr \<Rightarrow> outcome" where
  "remove_peer peer s =
     (if peer \<notin> set (peers s) then Raised ValueError s
      else
        let s1 = s\<lparr>peers := remove1 peer (peers s)\<rparr> in
        (case map_of (bitfields s1) peer of
           None \<Rightarrow> Raised KeyError s1
         | Some bf \<Rightarrow>
             let s2 = s1\<lparr>needed := remove_peer_pieces peer (findall True bf) (needed s1)\<rparr>;
                 s3 = s2\<lparr>bitfields := AList.delete peer (bitfields s2)\<rparr>
             in Returned (release peer s3)))"

subsection \<open>Interest and assignment\<close>

text \<open>
  \<^verbatim>\<open>_rarest\<close>: the needed pieces that some peer has, as tuples in ascending order
  (Python compares tuples, and the lists in them, lexicographically).
\<close>

definition rarest :: "torrentmgr \<Rightarrow> (int \<times> peer list \<times> nat) list" where
  "rarest s =
     sort (map (\<lambda>(index, (occurences, prs)). (occurences, prs, index))
             (filter (\<lambda>(index, (occurences, prs)). occurences \<noteq> 0) (needed s)))"

definition request :: "peer \<Rightarrow> torrentmgr \<Rightarrow> outcome" where
  "request peer s =
     (let s1 = (case map_of (interested s) peer of
                  Some (index, offset, sha1, _) \<Rightarrow>
                    s\<lparr>interested := AList.delete peer (interested s),
                      requesting :=
                        AList.update peer (index, offset, sha1, tick s, 0) (requesting s)\<rparr>
                | None \<Rightarrow> s)
      in (case map_of (requesting s1) peer of
            None \<Rightarrow> Raised KeyError s1
          | Some (index, received_bytes, _, _, _) \<Rightarrow>
              with_metainfo s1 (\<lambda>mi.
                Returned (PeerProxy_request peer index received_bytes
                            (bytes_to_request mi index received_bytes) s1))))"

definition show_interest :: "peer \<Rightarrow> torrentmgr \<Rightarrow> outcome" where
  "show_interest peer s =
     (let s1 = (if \<not> PeerProxy_is_interested peer s then PeerProxy_interested peer s else s)
      in if \<not> PeerProxy_is_peer_choked peer s1 then request peer s1 else Returned s1)"

text \<open>The pieces already designated for a peer.\<close>

definition dont_consider :: "torrentmgr \<Rightarrow> nat list" where
  "dont_consider s =
     map (\<lambda>(i, _, _, _). i) (map snd (interested s))
     @ map (\<lambda>(i, _, _, _, _). i) (map snd (requesting s))"

definition check_interest :: "peer \<Rightarrow> torrentmgr \<Rightarrow> outcome" where
  "check_interest peer s =
     (if \<not> has_key peer (interested s) \<and> \<not> has_key peer (requesting s) then
        (case map_of (bitfields s) peer of
           None \<Rightarrow> Raised KeyError s
         | Some bf \<Rightarrow>
             if length (have_bits s) \<noteq> length bf then Raised ValueError s
             else
               let of_interest = findall True (bit_and (invert (have_bits s)) bf);
                   resumed = (if length of_interest > 0
                              then find (\<lambda>(index, offset, sha1). index \<in> set of_interest)
                                     (partial s)
                              else None);
                   fresh = (if length of_interest > 0
                            then find (\<lambda>(_, _, index). index \<in> set of_interest \<and>
                                                        index \<notin> set (dont_consider s))
                                   (rarest s)
                            else None)
               in (case resumed of
                     Some (index, offset, sha1) \<Rightarrow>
                       show_interest peer
                         (s\<lparr>partial := remove1 (index, offset, sha1) (partial s),
                            interested :=
                              AList.update peer (index, offset, sha1, tick s) (interested s)\<rparr>)
                   | None \<Rightarrow>
                       (case fresh of
                          Some (_, _, index) \<Rightarrow>
                            show_interest peer
                              (s\<lparr>interested :=
                                   AList.update peer (index, 0, [], tick s) (interested s)\<rparr>)
                        | None \<Rightarrow>
                            if \<not> has_key peer (interested s) \<and> PeerProxy_is_interested peer s
                            then connect_to_peers 1 (PeerProxy_not_interested peer s)
                            else Returned s)))
      else Returned s)"

subsection \<open>Lifecycle and the public surface\<close>

text \<open>\<^verbatim>\<open>__init__\<close>: the attributes it creates; no other exists yet.\<close>

definition TorrentMgr_init :: torrentmgr where
  "TorrentMgr_init =
     \<lparr>state = Uninitialized, completionDeferred = None, metainfo = None, peers = [],
      bitfields = [], have_bits = [], needed = [], interested = [], requesting = [],
      partial = [], tick = 0, pp_interested = {}, pp_choked = {}, sent = []\<rparr>"

text \<open>
  What \<^verbatim>\<open>Metainfo(self._filename)\<close> does: it returns the descriptor, or raises one of the
  two exceptions that \<^verbatim>\<open>initialize\<close> catches.
\<close>

datatype load_result = Loaded metainfo | RaisesValueError | RaisesIOError

text \<open>The deferred that \<^verbatim>\<open>initialize\<close> returns: already failed, or waiting for the tracker.\<close>

datatype deferred = Errback error | Waiting

text \<open>
  \<^verbatim>\<open>initialize\<close>, up to its \<^verbatim>\<open>return\<close>. \<open>loaded\<close> is the result of loading the metainfo
  file and \<open>hv\<close> the bitfield that \<^verbatim>\<open>FileMgr(self._metainfo).have()\<close> returns.
\<close>

definition initialize :: "load_result \<Rightarrow> bitarray \<Rightarrow> torrentmgr \<Rightarrow> deferred \<times> torrentmgr" where
  "initialize loaded hv s =
     (if \<not> state s = Uninitialized then (Errback TorrentMgrError, s)
      else (case loaded of
              RaisesValueError \<Rightarrow> (Errback TorrentMgrError, s)
            | RaisesIOError \<Rightarrow> (Errback TorrentMgrError, s)
            | Loaded mi \<Rightarrow>
                (Waiting,
                 s\<lparr>metainfo := Some mi, peers := [], bitfields := [], have_bits := hv,
                   needed := map (\<lambda>piece. (piece, (0, []))) (findall False hv),
                   interested := [], requesting := [], partial := [],
                   sent := sent s @ [TrackerStart]\<rparr>)))"

text \<open>The callback \<^verbatim>\<open>success\<close> that \<^verbatim>\<open>initialize\<close> hands to the tracker's deferred.\<close>

definition success :: "torrentmgr \<Rightarrow> torrentmgr" where
  "success s = s\<lparr>state := Initialized\<rparr>"

definition start :: "torrentmgr \<Rightarrow> outcome" where
  "start s =
     (if \<not> state s = Initialized then Raised TorrentMgrError s
      else
        then_do
          (connect_to_peers 20
             (s\<lparr>sent := sent s @ [CallLater], tick := 1, state := Started\<rparr>))
          (\<lambda>s1. Returned (s1\<lparr>completionDeferred := Some False\<rparr>)))"

text \<open>
  \<^verbatim>\<open>percent\<close> computes in floating point; the quotient is taken in the reals here.
\<close>

definition percent :: "torrentmgr \<Rightarrow> error + real" where
  "percent s =
     (if \<not> state s = Uninitialized then
        (case metainfo s of
           None \<Rightarrow> Inl AttributeError
         | Some mi \<Rightarrow>
             if num_pieces mi = 0 then Inl ZeroDivisionError
             else Inr (100 * (1 - real (length (needed s)) / real (num_pieces mi))))
      else Inl TorrentMgrError)"

definition info_hash :: "torrentmgr \<Rightarrow> error + string" where
  "info_hash s =
     (if \<not> state s = Uninitialized then
        (case metainfo s of None \<Rightarrow> Inl AttributeError | Some mi \<Rightarrow> Inr (info_hash_of mi))
      else Inl TorrentMgrError)"

definition name :: "torrentmgr \<Rightarrow> error + string" where
  "name s = (case metainfo s of None \<Rightarrow> Inl AttributeError | Some mi \<Rightarrow> Inr (name_of mi))"

definition get_bitfield :: "torrentmgr \<Rightarrow> bitarray" where
  "get_bitfield s = have_bits s"

subsection \<open>The callbacks of the peers\<close>

definition peer_unconnected :: "peer \<Rightarrow> torrentmgr \<Rightarrow> outcome" where
  "peer_unconnected peer s = then_do (remove_peer peer s) (connect_to_peers 1)"

text \<open>
  The loop of \<^verbatim>\<open>peer_bitfield\<close> over the pieces of the new bitfield; its body is also
  what \<^verbatim>\<open>peer_has\<close> does for its one piece.
\<close>

definition add_peer_piece ::
  "peer \<Rightarrow> nat \<Rightarrow> (nat \<times> (int \<times> peer list)) list \<Rightarrow> (nat \<times> (int \<times> peer list)) list"
where
  "add_peer_piece peer piece nd =
     (case map_of nd piece of
        None \<Rightarrow> nd
      | Some (occurences, prs) \<Rightarrow>
          if peer \<notin> set prs
          then AList.update piece (occurences + 1, prs @ [peer]) nd
          else nd)"

fun add_peer_pieces ::
  "peer \<Rightarrow> nat list \<Rightarrow> (nat \<times> (int \<times> peer list)) list \<Rightarrow> (nat \<times> (int \<times> peer list)) list"
where
  "add_peer_pieces peer [] nd = nd"
| "add_peer_pieces peer (piece # pieces) nd =
     add_peer_pieces peer pieces (add_peer_piece peer piece nd)"

definition peer_bitfield :: "peer \<Rightarrow> bitarray \<Rightarrow> torrentmgr \<Rightarrow> outcome" where
  "peer_bitfield peer bitfield s =
     with_metainfo s (\<lambda>mi.
       let len = length bitfield in
       if len < num_pieces mi \<or>
          (len > num_pieces mi \<and> True \<in> set (drop (num_pieces mi) bitfield))
       then
         then_do (then_do (Returned (PeerProxy_drop_connection peer s)) (remove_peer peer))
           (connect_to_peers 1)
       else
         let s1 = s\<lparr>bitfields :=
                      AList.update peer (take (num_pieces mi) bitfield) (bitfields s)\<rparr>;
             pieces = findall True (take (num_pieces mi) bitfield);
             s2 = s1\<lparr>needed := add_peer_pieces peer pieces (needed s1)\<rparr>
         in check_interest peer s2)"

definition peer_has :: "peer \<Rightarrow> nat \<Rightarrow> torrentmgr \<Rightarrow> outcome" where
  "peer_has peer index s =
     with_metainfo s (\<lambda>mi.
       if index < num_pieces mi then
         (case map_of (bitfields s) peer of
            None \<Rightarrow> Raised KeyError s
          | Some bf \<Rightarrow>
              if \<not> index < length bf then Raised IndexError s
              else
                let s1 = s\<lparr>bitfields := AList.update peer (bf[index := True]) (bitfields s)\<rparr>
                in if has_key index (needed s1)
                   then check_interest peer
                          (s1\<lparr>needed := add_peer_piece peer index (needed s1)\<rparr>)
                   else Returned s1)
       else Raised IndexError s)"

definition peer_choked :: "peer \<Rightarrow> torrentmgr \<Rightarrow> outcome" where
  "peer_choked peer s = Returned (release peer s)"

definition peer_unchoked :: "peer \<Rightarrow> torrentmgr \<Rightarrow> outcome" where
  "peer_unchoked peer s =
     (if has_key peer (interested s) then request peer s else Returned s)"

text \<open>
  The branch of \<^verbatim>\<open>peer_sent_block\<close> for a verified piece: \<^verbatim>\<open>del self._needed[index]\<close>,
  the progress line, which calls \<^verbatim>\<open>percent()\<close>, and \<^verbatim>\<open>self._have[index] = 1\<close>.
\<close>

definition piece_received :: "nat \<Rightarrow> torrentmgr \<Rightarrow> outcome" where
  "piece_received index s =
     (if \<not> has_key index (needed s) then Raised KeyError s
      else
        let s1 = s\<lparr>needed := AList.delete index (needed s)\<rparr> in
        (case percent s1 of
           Inl e \<Rightarrow> Raised e s1
         | Inr _ \<Rightarrow>
             if index < length (have_bits s1)
             then Returned (s1\<lparr>have_bits := (have_bits s1)[index := True]\<rparr>)
             else Raised IndexError s1))"

text \<open>
  \<^verbatim>\<open>peer_sent_block\<close>. \<open>digest\<close> is SHA-1: the function from the bytes fed to a
  \<^verbatim>\<open>hashlib.sha1\<close> object to what its \<^verbatim>\<open>digest()\<close> returns.
\<close>

definition peer_sent_block ::
  "(string \<Rightarrow> string) \<Rightarrow> peer \<Rightarrow> nat \<Rightarrow> int \<Rightarrow> string \<Rightarrow> torrentmgr \<Rightarrow> outcome"
where
  "peer_sent_block digest peer index begin buf s =
     (case map_of (requesting s) peer of
        None \<Rightarrow> Returned s
      | Some (piece, received_bytes, sha1, _, _) \<Rightarrow>
          if piece = index \<and> begin = received_bytes then
            let sha1' = sha1 @ buf;
                s1 = FileMgr_write_block index begin buf s;
                s2 = s1\<lparr>requesting :=
                          AList.update peer
                            (piece, received_bytes + int (length buf), sha1', tick s1, 0)
                            (requesting s1)\<rparr>
            in with_metainfo s2 (\<lambda>mi.
                 if received_bytes + int (length buf) < length_of_piece mi index
                 then request peer s2
                 else
                   then_do
                     (if digest sha1' = piece_hash mi index then piece_received index s2
                      else Returned s2)
                     (\<lambda>s3.
                        let s4 = s3\<lparr>requesting := AList.delete peer (requesting s3)\<rparr>
                        in if needed s4 \<noteq> [] then check_interest peer s4
                           else completion_callback s4))
          else Returned s)"

definition peer_interested :: "peer \<Rightarrow> torrentmgr \<Rightarrow> outcome" where
  "peer_interested peer s = Returned s"

definition peer_not_interested :: "peer \<Rightarrow> torrentmgr \<Rightarrow> outcome" where
  "peer_not_interested peer s = Returned s"

definition peer_request :: "peer \<Rightarrow> nat \<Rightarrow> int \<Rightarrow> int \<Rightarrow> torrentmgr \<Rightarrow> outcome" where
  "peer_request peer index begin len s = Returned s"

definition peer_canceled :: "peer \<Rightarrow> nat \<Rightarrow> int \<Rightarrow> int \<Rightarrow> torrentmgr \<Rightarrow> outcome" where
  "peer_canceled peer index begin len s = Returned s"

subsection \<open>The timer\<close>

text \<open>
  The two loops of \<^verbatim>\<open>timer_event\<close> run over \<^verbatim>\<open>items()\<close>, a list made when the loop
  starts (Python 2), while their bodies change the dictionaries.
\<close>

fun stale_interest :: "(peer \<times> reservation) list \<Rightarrow> torrentmgr \<Rightarrow> outcome" where
  "stale_interest [] s = Returned s"
| "stale_interest ((peer, (_, _, _, tick0)) # items) s =
     (if tick0 + 4 = tick s then
        (let s1 = PeerProxy_not_interested peer s in
         if \<not> has_key peer (interested s1) then Raised KeyError s1
         else then_do
                (connect_to_peers 1 (s1\<lparr>interested := AList.delete peer (interested s1)\<rparr>))
                (stale_interest items))
      else stale_interest items s)"

fun stale_request :: "(peer \<times> active_request) list \<Rightarrow> torrentmgr \<Rightarrow> outcome" where
  "stale_request [] s = Returned s"
| "stale_request ((peer, (index, offset, sha1, tick0, retries)) # items) s =
     (if tick0 + 5 = tick s then
        (if retries < MAX_RETRIES then
           then_do
             (request peer
                (s\<lparr>requesting :=
                     AList.update peer (index, offset, sha1, tick s, retries + 1)
                       (requesting s)\<rparr>))
             (stale_request items)
         else
           (let s1 = s\<lparr>partial := partial s @ [(index, offset, sha1)]\<rparr> in
            if \<not> has_key peer (requesting s1) then Raised KeyError s1
            else then_do
                   (connect_to_peers 1
                      (PeerProxy_not_interested peer
                         (s1\<lparr>requesting := AList.delete peer (requesting s1)\<rparr>)))
                   (stale_request items)))
      else stale_request items s)"

definition timer_event :: "torrentmgr \<Rightarrow> outcome" where
  "timer_event s =
     (let s1 = s\<lparr>sent := sent s @ [CallLater], tick := tick s + 1\<rparr> in
      then_do (stale_interest (interested s1) s1) (\<lambda>s2. stale_request (requesting s2) s2))"

subsection \<open>Runs of the coordinator\<close>

text \<open>
  What can happen to a started coordinator: the tracker answers a \<^verbatim>\<open>get_peers\<close>, a peer
  calls one of its callbacks, the timer fires, or a \<^verbatim>\<open>PeerProxy\<close> changes its own flags
  (a choke or unchoke message arrived, say).
\<close>

datatype event =
  HandleAddrs "peer list"
  | PeerUnconnected peer
  | PeerBitfield peer bitarray
  | PeerHas peer nat
  | PeerChoked peer
  | PeerUnchoked peer
  | PeerSentBlock peer nat int string
  | PeerInterested peer
  | PeerNotInterested peer
  | PeerRequest peer nat int int
  | PeerCanceled peer nat int int
  | TimerEvent
  | PeerFlags "peer set" "peer set"

fun handle :: "(string \<Rightarrow> string) \<Rightarrow> event \<Rightarrow> torrentmgr \<Rightarrow> outcome" where
  "handle digest (HandleAddrs addrs) s = handle_addrs addrs s"
| "handle digest (PeerUnconnected peer) s = peer_unconnected peer s"
| "handle digest (PeerBitfield peer bitfield) s = peer_bitfield peer bitfield s"
| "handle digest (PeerHas peer index) s = peer_has peer index s"
| "handle digest (PeerChoked peer) s = peer_choked peer s"
| "handle digest (PeerUnchoked peer) s = peer_unchoked peer s"
| "handle digest (PeerSentBlock peer index begin buf) s =
     peer_sent_block digest peer index begin buf s"
| "handle digest (PeerInterested peer) s = peer_interested peer s"
| "handle digest (PeerNotInterested peer) s = peer_not_interested peer s"
| "handle digest (PeerRequest peer index begin len) s = peer_request peer index begin len s"
| "handle digest (PeerCanceled peer index begin len) s = peer_canceled peer index begin len s"
| "handle digest TimerEvent s = timer_event s"
| "handle digest (PeerFlags i c) s = Returned (s\<lparr>pp_interested := i, pp_choked := c\<rparr>)"

text \<open>
  The states a coordinator goes through: \<^verbatim>\<open>initialize\<close> succeeds on an uninitialized
  object (the metainfo loads, the file manager hands out a bitfield with one bit per
  piece, the tracker answers), \<^verbatim>\<open>start\<close> is called, and events arrive once the
  coordinator is started. A call that raises leaves the object as it is at that point.
\<close>

inductive reachable :: "(string \<Rightarrow> string) \<Rightarrow> torrentmgr \<Rightarrow> bool" for digest where
  reach_initialize:
    "state s0 = Uninitialized \<Longrightarrow> length hv = num_pieces mi \<Longrightarrow>
     reachable digest (success (snd (initialize (Loaded mi) hv s0)))"
| reach_start:
    "reachable digest s \<Longrightarrow> reachable digest (state_of (start s))"
| reach_event:
    "reachable digest s \<Longrightarrow> state s = Started \<Longrightarrow>
     reachable digest (state_of (handle digest ev s))"

subsection \<open>The properties of the bookkeeping\<close>

text \<open>The pieces that \<^verbatim>\<open>_interested\<close>, \<^verbatim>\<open>_requesting\<close> and \<^verbatim>\<open>_partial\<close> hold, in this order.\<close>

definition assigned_pieces :: "torrentmgr \<Rightarrow> nat list" where
  "assigned_pieces s =
     map (\<lambda>(peer, (i, _, _, _)). i) (interested s)
     @ map (\<lambda>(peer, (i, _, _, _, _)). i) (requesting s)
     @ map (\<lambda>(i, _, _). i) (partial s)"

text \<open>The piece reserved for a peer, in \<^verbatim>\<open>_interested\<close> or in \<^verbatim>\<open>_requesting\<close>.\<close>

definition reserved_piece :: "torrentmgr \<Rightarrow> peer \<Rightarrow> nat option" where
  "reserved_piece s peer =
     (case map_of (interested s) peer of
        Some (i, _, _, _) \<Rightarrow> Some i
      | None \<Rightarrow> (case map_of (requesting s) peer of
                   Some (i, _, _, _, _) \<Rightarrow> Some i
                 | None \<Rightarrow> None))"

text \<open>A peer advertises a piece when the bit is set in its bitfield.\<close>

definition advertises :: "torrentmgr \<Rightarrow> peer \<Rightarrow> nat \<Rightarrow> bool" where
  "advertises s peer i =
     (case map_of (bitfields s) peer of None \<Rightarrow> False | Some bf \<Rightarrow> i < length bf \<and> bf ! i)"

text \<open>The rarity count of a needed piece.\<close>

definition rarity :: "torrentmgr \<Rightarrow> nat \<Rightarrow> int" where
  "rarity s i = (case map_of (needed s) i of None \<Rightarrow> 0 | Some (occurences, _) \<Rightarrow> occurences)"

text \<open>
  The candidates of the spec: the pieces the peer advertises that are still needed and
  that no entry of \<^verbatim>\<open>_interested\<close> and no entry of \<^verbatim>\<open>_requesting\<close> holds for any peer.
\<close>

definition candidates :: "torrentmgr \<Rightarrow> peer \<Rightarrow> nat set" where
  "candidates s peer =
     {i \<in> fst ` set (needed s).
        advertises s peer i \<and>
        (\<forall>(p, j, offset, sha1, t) \<in> set (interested s). j \<noteq> i) \<and>
        (\<forall>(p, j, offset, sha1, t, n) \<in> set (requesting s). j \<noteq> i)}"

definition same_pieces :: "torrentmgr \<Rightarrow> torrentmgr \<Rightarrow> bool" where
  "same_pieces s s' \<longleftrightarrow>
     metainfo s' = metainfo s \<and> have_bits s' = have_bits s \<and> state s' = state s \<and>
     fst ` set (needed s') = fst ` set (needed s)"

definition partition_ok :: "torrentmgr \<Rightarrow> bool" where
  "partition_ok s =
     (case metainfo s of
        None \<Rightarrow> False
      | Some mi \<Rightarrow>
          state s \<noteq> Uninitialized \<and> length (have_bits s) = num_pieces mi \<and>
          fst ` set (needed s) = set (findall False (have_bits s)))"

definition amset :: "torrentmgr \<Rightarrow> nat multiset" where
  "amset s = mset (assigned_pieces s)"

definition keys_ok :: "torrentmgr \<Rightarrow> bool" where
  "keys_ok s \<longleftrightarrow> distinct (map fst (interested s)) \<and> distinct (map fst (requesting s))"

text \<open>A step that assigns nothing new.\<close>

definition shrinks :: "torrentmgr \<Rightarrow> torrentmgr \<Rightarrow> bool" where
  "shrinks s s' \<longleftrightarrow>
     (keys_ok s \<longrightarrow> keys_ok s' \<and> amset s' \<subseteq># amset s) \<and>
     fst ` set (needed s') = fst ` set (needed s)"

definition assign_ok :: "torrentmgr \<Rightarrow> bool" where
  "assign_ok s \<longleftrightarrow>
     keys_ok s \<and> distinct (assigned_pieces s) \<and>
     set (assigned_pieces s) \<subseteq> fst ` set (needed s)"

subsection \<open>Examples\<close>

text \<open>A torrent of four pieces of 32 KiB, the last one cut short at 1696 bytes.\<close>

definition example_metainfo :: metainfo where
  "example_metainfo =
     \<lparr>num_pieces = 4, piece_length = 32768, total_length = 100000,
      piece_hash = (\<lambda>i. ''digest''), info_hash_of = ''infohash'', name_of = ''example''\<rparr>"

definition snapshot_ok :: "(peer \<times> active_request) list \<Rightarrow> torrentmgr \<Rightarrow> bool" where
  "snapshot_ok items s \<longleftrightarrow>
     distinct (map fst items) \<and> (\<forall>x \<in> set items. map_of (requesting s) (fst x) = Some (snd x))"

text \<open>A run of events, each delivered to the object the one before left.\<close>

definition run :: "(string \<Rightarrow> string) \<Rightarrow> event list \<Rightarrow> torrentmgr \<Rightarrow> torrentmgr" where
  "run digest evs s = foldl (\<lambda>s ev. state_of (handle digest ev s)) s evs"

text \<open>
  A torrent of two pieces, of five and three bytes, with a stand-in for SHA-1 that
  returns the bytes themselves.
\<close>

definition ex_digest :: "string \<Rightarrow> string" where
  "ex_digest bytes = bytes"

definition ex_mi :: metainfo where
  "ex_mi = \<lparr>num_pieces = 2, piece_length = 5, total_length = 8,
            piece_hash = (\<lambda>i. if i = 0 then ''hello'' else ''abc''),
            info_hash_of = ''infohash'', name_of = ''example''\<rparr>"

text \<open>The coordinator after \<^verbatim>\<open>initialize\<close> and \<^verbatim>\<open>start\<close>, with nothing on disk.\<close>

definition ex_started :: torrentmgr where
  "ex_started =
     state_of (start (success (snd (initialize (Loaded ex_mi) [False, False] TorrentMgr_init))))"

text \<open>
  Two peers connect; peer 1 has both pieces, is shown interest for piece 0, unchokes
  and is asked for the piece.
\<close>

definition ex_requesting :: torrentmgr where
  "ex_requesting =
     run ex_digest
       [HandleAddrs [1, 2], PeerBitfield 1 [True, True], PeerFlags {1} {2}, PeerUnchoked 1]
       ex_started"

text \<open>Then peer 2 announces piece 1 and is shown interest for it.\<close>

definition ex_two_assigned :: torrentmgr where
  "ex_two_assigned = run ex_digest [PeerHas 2 1] ex_requesting"

text \<open>The object between the return of \<^verbatim>\<open>initialize\<close> and the answer of the tracker.\<close>

definition ex_waiting :: torrentmgr where
  "ex_waiting = snd (initialize (Loaded ex_mi) [False, False] TorrentMgr_init)"

text \<open>A step that leaves the metainfo, the bitfields of the peers and \<^verbatim>\<open>_needed\<close> alone.\<close>

definition same_avail :: "torrentmgr \<Rightarrow> torrentmgr \<Rightarrow> bool" where
  "same_avail s s' \<longleftrightarrow>
     metainfo s' = metainfo s \<and> bitfields s' = bitfields s \<and> needed s' = needed s"

text \<open>
  The availability bookkeeping is consistent: the keys of \<^verbatim>\<open>_needed\<close> are distinct, a
  rarity count is the length of its peer list, every bitfield has one bit per piece,
  and a peer that advertises a needed piece is in that piece's peer list.
\<close>

definition avail_ok :: "torrentmgr \<Rightarrow> bool" where
  "avail_ok s \<longleftrightarrow>
     distinct (map fst (needed s)) \<and>
     (\<forall>i occurences prs. map_of (needed s) i = Some (occurences, prs) \<longrightarrow>
        occurences = int (length prs)) \<and>
     (\<forall>peer bf. map_of (bitfields s) peer = Some bf \<longrightarrow>
        (case metainfo s of None \<Rightarrow> False | Some mi \<Rightarrow> length bf = num_pieces mi) \<and>
        (\<forall>i occurences prs. i < length bf \<and> bf ! i \<and>
           map_of (needed s) i = Some (occurences, prs) \<longrightarrow> peer \<in> set prs))"

definition needed_wf :: "(nat \<times> (int \<times> peer list)) list \<Rightarrow> bool" where
  "needed_wf nd \<longleftrightarrow>
     distinct (map fst nd) \<and>
     (\<forall>i occurences prs. map_of nd i = Some (occurences, prs) \<longrightarrow>
        occurences = int (length prs))"

definition listed :: "(nat \<times> (int \<times> peer list)) list \<Rightarrow> peer \<Rightarrow> bitarray \<Rightarrow> bool" where
  "listed nd peer bf \<longleftrightarrow>
     (\<forall>i occurences prs. i < length bf \<and> bf ! i \<and> map_of nd i = Some (occurences, prs) \<longrightarrow>
        peer \<in> set prs)"

definition has_peer :: "(nat \<times> (int \<times> peer list)) list \<Rightarrow> nat \<Rightarrow> peer \<Rightarrow> bool" where
  "has_peer nd i peer \<longleftrightarrow>
     (\<forall>occurences prs. map_of nd i = Some (occurences, prs) \<longrightarrow> peer \<in> set prs)"

definition bitfield_ok :: "torrentmgr \<Rightarrow> peer \<Rightarrow> bitarray \<Rightarrow> bool" where
  "bitfield_ok s peer bf \<longleftrightarrow>
     (case metainfo s of None \<Rightarrow> False | Some mi \<Rightarrow> length bf = num_pieces mi) \<and>
     listed (needed s) peer bf"

text \<open>
  A torrent of three pieces. Peers 3, 4 and 5 announce their pieces and choke; peer 1
  announces piece 0 and is shown interest for it; peer 2 announces all three pieces,
  is shown interest and chokes, which frees it again.
\<close>

definition ex_mi3 :: metainfo where
  "ex_mi3 = \<lparr>num_pieces = 3, piece_length = 5, total_length = 13,
             piece_hash = (\<lambda>i. if i = 0 then ''hello'' else if i = 1 then ''world'' else ''abc''),
             info_hash_of = ''infohash'', name_of = ''example''\<rparr>"

definition ex_started3 :: torrentmgr where
  "ex_started3 =
     state_of (start (success (snd (initialize (Loaded ex_mi3) [False, False, False]
       TorrentMgr_init))))"

definition ex_reserved :: torrentmgr where
  "ex_reserved =
     run ex_digest
       [HandleAddrs [1, 2, 3, 4, 5],
        PeerBitfield 3 [False, True, True], PeerChoked 3,
        PeerBitfield 4 [False, True, True], PeerChoked 4,
        PeerBitfield 5 [False, True, False], PeerChoked 5,
        PeerBitfield 1 [True, False, False],
        PeerBitfield 2 [True, True, True], PeerChoked 2]
       ex_started3"

text \<open>No peer is both in \<^verbatim>\<open>_interested\<close> and in \<^verbatim>\<open>_requesting\<close>.\<close>

definition disjoint_ok :: "torrentmgr \<Rightarrow> bool" where
  "disjoint_ok s \<longleftrightarrow> fst ` set (interested s) \<inter> fst ` set (requesting s) = {}"

text \<open>
  The timer sweep in the words of the spec, one entry at a time. A stale interest:
  send not-interested, remove from \<^verbatim>\<open>_interested\<close>, open one replacement connection.
\<close>

definition interest_sweep :: "peer \<times> reservation \<Rightarrow> torrentmgr \<Rightarrow> torrentmgr" where
  "interest_sweep item s =
     (case item of (peer, (index, offset, sha1, tick0)) \<Rightarrow>
        if tick0 + 4 = tick s
        then s\<lparr>pp_interested := pp_interested s - {peer},
               interested := AList.delete peer (interested s),
               sent := sent s @ [SendNotInterested peer, GetPeers 1]\<rparr>
        else s)"

text \<open>
  A stale request: below \<open>MAX_RETRIES\<close>, re-issue the request, bump the retry count
  and reset the tick; otherwise spill to \<^verbatim>\<open>_partial\<close>, remove from \<^verbatim>\<open>_requesting\<close>, send
  not-interested and open one replacement connection.
\<close>

definition request_sweep :: "metainfo \<Rightarrow> peer \<times> active_request \<Rightarrow> torrentmgr \<Rightarrow> torrentmgr" where
  "request_sweep mi item s =
     (case item of (peer, (index, offset, sha1, tick0, retries)) \<Rightarrow>
        if tick0 + 5 = tick s then
          (if retries < MAX_RETRIES
           then s\<lparr>requesting :=
                    AList.update peer (index, offset, sha1, tick s, retries + 1) (requesting s),
                  sent := sent s @
                    [SendRequest peer index offset (bytes_to_request mi index offset)]\<rparr>
           else s\<lparr>partial := partial s @ [(index, offset, sha1)],
                  requesting := AList.delete peer (requesting s),
                  pp_interested := pp_interested s - {peer},
                  sent := sent s @ [SendNotInterested peer, GetPeers 1]\<rparr>)
        else s)"

text \<open>The commands of the sweep for one entry, and the entries it gives up.\<close>

definition interest_commands :: "int \<Rightarrow> peer \<times> reservation \<Rightarrow> command list" where
  "interest_commands now item =
     (case item of (peer, (index, offset, sha1, tick0)) \<Rightarrow>
        if tick0 + 4 = now then [SendNotInterested peer, GetPeers 1] else [])"

definition request_commands :: "metainfo \<Rightarrow> int \<Rightarrow> peer \<times> active_request \<Rightarrow> command list" where
  "request_commands mi now item =
     (case item of (peer, (index, offset, sha1, tick0, retries)) \<Rightarrow>
        if tick0 + 5 = now then
          (if retries < MAX_RETRIES
           then [SendRequest peer index offset (bytes_to_request mi index offset)]
           else [SendNotInterested peer, GetPeers 1])
        else [])"

definition given_up :: "int \<Rightarrow> peer \<times> active_request \<Rightarrow> bool" where
  "given_up now item =
     (case item of (peer, (index, offset, sha1, tick0, retries)) \<Rightarrow>
        tick0 + 5 = now \<and> \<not> retries < MAX_RETRIES)"

definition spilled :: "peer \<times> active_request \<Rightarrow> partial_piece" where
  "spilled item = (case item of (peer, (index, offset, sha1, tick0, retries)) \<Rightarrow>
                     (index, offset, sha1))"

text \<open>
  Scenario S5 of the spec on the example torrent: peer 1 has been asked for piece 0 at
  tick 1 and stays silent. After four ticks the request is about to go stale for the
  first time, after fourteen for the third time.
\<close>

definition ex_silent :: torrentmgr where
  "ex_silent = run ex_digest (replicate 4 TimerEvent) ex_requesting"

definition ex_silent_long :: torrentmgr where
  "ex_silent_long = run ex_digest (replicate 14 TimerEvent) ex_requesting"

text \<open>
  Two peers are connected. Peer 1 sends the bitfield of both pieces and then a second
  bitfield with piece 1 only; in the other run it sends the second bitfield only.
\<close>

definition ex_connected :: torrentmgr where
  "ex_connected = run ex_digest [HandleAddrs [1, 2]] ex_started"

definition ex_two_bitfields :: torrentmgr where
  "ex_two_bitfields =
     run ex_digest [PeerBitfield 1 [True, True], PeerBitfield 1 [False, True]] ex_connected"

definition ex_second_bitfield_only :: torrentmgr where
  "ex_second_bitfield_only = run ex_digest [PeerBitfield 1 [False, True]] ex_connected"

section \<open>Proofs\<close>

lemma has_key_iff: "has_key k d \<longleftrightarrow> k \<in> fst ` set d"
  by (simp add: has_key_def map_of_eq_None_iff)

lemma state_of_then_do:
  "P (state_of r) \<Longrightarrow> (\<And>s. P s \<Longrightarrow> P (state_of (f s))) \<Longrightarrow> P (state_of (then_do r f))"
  by (cases r) auto

lemma state_of_with_metainfo:
  "P s \<Longrightarrow> (\<And>mi. metainfo s = Some mi \<Longrightarrow> P (state_of (f mi))) \<Longrightarrow>
   P (state_of (with_metainfo s f))"
  by (auto simp: with_metainfo_def split: option.splits)

lemma keys_update_present:
  "k \<in> fst ` set al \<Longrightarrow> fst ` set (AList.update k v al) = fst ` set al"
  by (auto simp: dom_update)

lemma keys_remove_peer_pieces:
  "fst ` set (remove_peer_pieces peer pieces nd) = fst ` set nd"
proof (induction pieces arbitrary: nd)
  case Nil
  then show ?case by simp
next
  case (Cons piece pieces)
  have "fst ` set (AList.update piece v nd) = fst ` set nd" if "map_of nd piece = Some w" for v w
    using that by (intro keys_update_present) (auto dest!: map_of_SomeD intro: rev_image_eqI)
  then show ?case
    by (simp add: Cons.IH split: option.splits)
qed

lemma keys_add_peer_piece: "fst ` set (add_peer_piece peer piece nd) = fst ` set nd"
proof -
  have "fst ` set (AList.update piece v nd) = fst ` set nd" if "map_of nd piece = Some w" for v w
    using that by (intro keys_update_present) (auto dest!: map_of_SomeD intro: rev_image_eqI)
  then show ?thesis
    by (simp add: add_peer_piece_def split: option.splits)
qed

lemma keys_add_peer_pieces: "fst ` set (add_peer_pieces peer pieces nd) = fst ` set nd"
  by (induction pieces arbitrary: nd) (simp_all add: keys_add_peer_piece)

lemma same_pieces_update [simp]:
  "same_pieces s0 (s\<lparr>completionDeferred := a\<rparr>) = same_pieces s0 s"
  "same_pieces s0 (s\<lparr>peers := b\<rparr>) = same_pieces s0 s"
  "same_pieces s0 (s\<lparr>bitfields := c\<rparr>) = same_pieces s0 s"
  "same_pieces s0 (s\<lparr>interested := d\<rparr>) = same_pieces s0 s"
  "same_pieces s0 (s\<lparr>requesting := e\<rparr>) = same_pieces s0 s"
  "same_pieces s0 (s\<lparr>partial := f\<rparr>) = same_pieces s0 s"
  "same_pieces s0 (s\<lparr>tick := g\<rparr>) = same_pieces s0 s"
  "same_pieces s0 (s\<lparr>pp_interested := h\<rparr>) = same_pieces s0 s"
  "same_pieces s0 (s\<lparr>pp_choked := i\<rparr>) = same_pieces s0 s"
  "same_pieces s0 (s\<lparr>sent := j\<rparr>) = same_pieces s0 s"
  by (simp_all add: same_pieces_def)

lemma same_pieces_needed:
  "fst ` set nd = fst ` set (needed s) \<Longrightarrow>
   same_pieces s0 (s\<lparr>needed := nd\<rparr>) = same_pieces s0 s"
  by (simp add: same_pieces_def)

lemma PeerProxy_pieces [simp]:
  "same_pieces s0 (PeerProxy_interested peer s) = same_pieces s0 s"
  "same_pieces s0 (PeerProxy_not_interested peer s) = same_pieces s0 s"
  "same_pieces s0 (PeerProxy_request peer index offset len s) = same_pieces s0 s"
  "same_pieces s0 (PeerProxy_drop_connection peer s) = same_pieces s0 s"
  "same_pieces s0 (FileMgr_write_block index offset buf s) = same_pieces s0 s"
  by (simp_all add: PeerProxy_interested_def PeerProxy_not_interested_def
      PeerProxy_request_def PeerProxy_drop_connection_def FileMgr_write_block_def)

lemma connect_to_peers_pieces:
  "same_pieces s0 s \<Longrightarrow> same_pieces s0 (state_of (connect_to_peers n s))"
  by (simp add: connect_to_peers_def)

lemma handle_addrs_pieces:
  "same_pieces s0 s \<Longrightarrow> same_pieces s0 (state_of (handle_addrs addrs s))"
  by (induction addrs arbitrary: s) (auto simp: with_metainfo_def split: option.splits)

lemma release_pieces: "same_pieces s0 s \<Longrightarrow> same_pieces s0 (release peer s)"
  by (simp add: release_def split: option.splits)

lemma remove_peer_pieces':
  "same_pieces s0 s \<Longrightarrow> same_pieces s0 (state_of (remove_peer peer s))"
  by (simp add: remove_peer_def Let_def release_pieces same_pieces_needed
      keys_remove_peer_pieces split: option.splits)

lemma request_pieces: "same_pieces s0 s \<Longrightarrow> same_pieces s0 (state_of (request peer s))"
  by (simp add: request_def Let_def with_metainfo_def split: option.splits)

lemma show_interest_pieces:
  "same_pieces s0 s \<Longrightarrow> same_pieces s0 (state_of (show_interest peer s))"
  by (simp add: show_interest_def Let_def request_pieces)

lemma check_interest_pieces:
  "same_pieces s0 s \<Longrightarrow> same_pieces s0 (state_of (check_interest peer s))"
  by (simp add: check_interest_def Let_def show_interest_pieces connect_to_peers_pieces
      split: option.splits)

lemma peer_unconnected_pieces:
  "same_pieces s0 s \<Longrightarrow> same_pieces s0 (state_of (peer_unconnected peer s))"
  unfolding peer_unconnected_def
  by (intro state_of_then_do [where P = "same_pieces s0"] remove_peer_pieces'
      connect_to_peers_pieces)

lemma peer_bitfield_pieces:
  "same_pieces s0 s \<Longrightarrow> same_pieces s0 (state_of (peer_bitfield peer bitfield s))"
  unfolding peer_bitfield_def Let_def
  by (auto simp: with_metainfo_def same_pieces_needed keys_add_peer_pieces
      split: option.splits
      intro!: state_of_then_do [where P = "same_pieces s0"] remove_peer_pieces'
      connect_to_peers_pieces check_interest_pieces)

lemma peer_has_pieces:
  "same_pieces s0 s \<Longrightarrow> same_pieces s0 (state_of (peer_has peer index s))"
  unfolding peer_has_def Let_def
  by (auto simp: with_metainfo_def same_pieces_needed keys_add_peer_piece
      split: option.splits intro!: check_interest_pieces)

lemma peer_choked_pieces:
  "same_pieces s0 s \<Longrightarrow> same_pieces s0 (state_of (peer_choked peer s))"
  by (simp add: peer_choked_def release_pieces)

lemma peer_unchoked_pieces:
  "same_pieces s0 s \<Longrightarrow> same_pieces s0 (state_of (peer_unchoked peer s))"
  by (simp add: peer_unchoked_def request_pieces)

lemma stale_interest_pieces:
  "same_pieces s0 s \<Longrightarrow> same_pieces s0 (state_of (stale_interest items s))"
proof (induction items s rule: stale_interest.induct)
  case (1 s)
  then show ?case by simp
next
  case (2 peer i off h tick0 items s)
  then show ?case
    by (auto simp: Let_def connect_to_peers_def)
qed

lemma stale_request_pieces:
  "same_pieces s0 s \<Longrightarrow> same_pieces s0 (state_of (stale_request items s))"
proof (induction items arbitrary: s)
  case Nil
  then show ?case by simp
next
  case (Cons item items)
  obtain peer index offset sha1 tick0 retries
    where item: "item = (peer, (index, offset, sha1, tick0, retries))"
    by (metis prod_cases5)
  show ?case
    unfolding item stale_request.simps Let_def
    using Cons.prems
    by (auto intro!: state_of_then_do [where P = "same_pieces s0"] Cons.IH request_pieces
        connect_to_peers_pieces)
qed

lemma timer_event_pieces:
  "same_pieces s0 s \<Longrightarrow> same_pieces s0 (state_of (timer_event s))"
  unfolding timer_event_def Let_def
  by (auto intro!: state_of_then_do [where P = "same_pieces s0"] stale_interest_pieces
      stale_request_pieces)

lemma set_findall: "set (findall v b) = {i. i < length b \<and> b ! i = v}"
  by (auto simp: findall_def)

lemma distinct_findall: "distinct (findall v b)"
  by (simp add: findall_def)

lemma same_pieces_partition: "same_pieces s s' \<Longrightarrow> partition_ok s \<Longrightarrow> partition_ok s'"
  by (auto simp: same_pieces_def partition_ok_def split: option.splits)

lemma same_pieces_refl: "same_pieces s s"
  by (simp add: same_pieces_def)

lemma keys_delete: "fst ` set (AList.delete k al) = fst ` set al - {k}"
  by (induction al) auto

lemma piece_received_partition:
  assumes "partition_ok s"
  shows "partition_ok (state_of (piece_received index s))"
proof (cases "has_key index (needed s)")
  case False
  then show ?thesis using assms by (simp add: piece_received_def)
next
  case True
  from assms obtain mi where mi: "metainfo s = Some mi"
    and st: "state s \<noteq> Uninitialized" and len: "length (have_bits s) = num_pieces mi"
    and keys: "fst ` set (needed s) = set (findall False (have_bits s))"
    by (auto simp: partition_ok_def split: option.splits)
  from True keys have idx: "index < length (have_bits s)"
    by (auto simp: has_key_iff set_findall)
  with len have "num_pieces mi \<noteq> 0" by auto
  then have pc: "\<exists>r. percent (s\<lparr>needed := AList.delete index (needed s)\<rparr>) = Inr r"
    using mi st by (simp add: percent_def)
  have "set (findall False ((have_bits s)[index := True])) =
        set (findall False (have_bits s)) - {index}"
    using idx by (auto simp: set_findall nth_list_update)
  then show ?thesis
    using True pc idx mi st len keys
    by (auto simp: piece_received_def Let_def partition_ok_def keys_delete)
qed

lemma partition_ok_update [simp]:
  "partition_ok (s\<lparr>requesting := e\<rparr>) = partition_ok s"
  "partition_ok (s\<lparr>sent := j\<rparr>) = partition_ok s"
  "partition_ok (s\<lparr>completionDeferred := a\<rparr>) = partition_ok s"
  "partition_ok (s\<lparr>pp_interested := h, pp_choked := i\<rparr>) = partition_ok s"
  by (simp_all add: partition_ok_def cong: option.case_cong)

lemma request_partition: "partition_ok s \<Longrightarrow> partition_ok (state_of (request peer s))"
  using request_pieces [OF same_pieces_refl] by (rule same_pieces_partition)

lemma check_interest_partition:
  "partition_ok s \<Longrightarrow> partition_ok (state_of (check_interest peer s))"
  using check_interest_pieces [OF same_pieces_refl] by (rule same_pieces_partition)

lemma completion_callback_partition:
  "partition_ok s \<Longrightarrow> partition_ok (state_of (completion_callback s))"
  by (simp add: completion_callback_def split: option.splits bool.splits)

lemma peer_sent_block_partition:
  assumes "partition_ok s"
  shows "partition_ok (state_of (peer_sent_block digest peer index begin buf s))"
proof -
  have tail: "partition_ok (state_of
      (let s4 = s3\<lparr>requesting := AList.delete peer (requesting s3)\<rparr>
       in if needed s4 \<noteq> [] then check_interest peer s4 else completion_callback s4))"
    if "partition_ok s3" for s3
    using that by (simp add: Let_def check_interest_partition completion_callback_partition)
  have verify: "partition_ok (state_of
      (if digest h = d then piece_received index s2 else Returned s2))"
    if "partition_ok s2" for s2 h d
    using that by (simp add: piece_received_partition)
  show ?thesis
    unfolding peer_sent_block_def
    using assms
    by (auto split: option.splits
        simp: with_metainfo_def Let_def FileMgr_write_block_def request_partition
          piece_received_partition check_interest_partition completion_callback_partition
        intro!: state_of_then_do [where P = partition_ok])
qed

lemma start_partition: "partition_ok s \<Longrightarrow> partition_ok (state_of (start s))"
  by (auto simp: start_def connect_to_peers_def partition_ok_def split: option.splits)

lemma initialize_partition:
  assumes "state s0 = Uninitialized" and "length hv = num_pieces mi"
  shows "partition_ok (success (snd (initialize (Loaded mi) hv s0)))"
  using assms by (simp add: initialize_def success_def partition_ok_def image_image)

lemma handle_partition:
  assumes "partition_ok s"
  shows "partition_ok (state_of (handle digest ev s))"
proof -
  have frame: "partition_ok s'" if "same_pieces s s'" for s'
    using that assms by (rule same_pieces_partition)
  show ?thesis
    by (cases ev)
      (simp_all add: peer_sent_block_partition assms frame same_pieces_refl
        handle_addrs_pieces peer_unconnected_pieces peer_bitfield_pieces peer_has_pieces
        peer_choked_pieces peer_unchoked_pieces timer_event_pieces
        peer_interested_def peer_not_interested_def peer_request_def peer_canceled_def)
qed

lemma reachable_partition: "reachable digest s \<Longrightarrow> partition_ok s"
  by (induction rule: reachable.induct)
    (simp_all add: initialize_partition start_partition handle_partition)

text \<open>Association lists as multisets of values.\<close>

lemma mset_delete_present:
  "distinct (map fst d) \<Longrightarrow> map_of d k = Some v \<Longrightarrow>
   mset d = add_mset (k, v) (mset (AList.delete k d))"
proof (induction d)
  case Nil
  then show ?case by simp
next
  case (Cons p d)
  show ?case
  proof (cases "fst p = k")
    case True
    with Cons.prems have "p = (k, v)" by (cases p) auto
    moreover from True Cons.prems have "k \<notin> fst ` set d" by auto
    ultimately show ?thesis by simp
  next
    case False
    with Cons show ?thesis by (cases p) auto
  qed
qed

lemma mset_delete_le: "mset (AList.delete k d) \<subseteq># mset d"
  unfolding AList.delete_eq by simp

lemma image_mset_delete_le [simp]:
  "image_mset f (mset (AList.delete k d)) \<subseteq># image_mset f (mset d)"
  by (intro image_mset_subseteq_mono mset_delete_le)

lemma mset_update:
  "distinct (map fst d) \<Longrightarrow>
   mset (AList.update k v d) = add_mset (k, v) (mset (AList.delete k d))"
proof (induction d)
  case Nil
  then show ?case by simp
next
  case (Cons p d)
  then show ?case by (cases p) (auto simp: rev_image_eqI)
qed

lemma amset_split:
  "amset s = mset (map (\<lambda>(peer, (i, _, _, _)). i) (interested s))
     + mset (map (\<lambda>(peer, (i, _, _, _, _)). i) (requesting s))
     + mset (map (\<lambda>(i, _, _). i) (partial s))"
  by (simp add: amset_def assigned_pieces_def)

lemma shrinks_refl: "shrinks s s"
  by (simp add: shrinks_def)

lemma shrinks_trans: "shrinks s s' \<Longrightarrow> shrinks s' s'' \<Longrightarrow> shrinks s s''"
  by (auto simp: shrinks_def intro: subset_mset.order_trans)

lemma release_shrinks: "shrinks s (release peer s)"
proof (cases "has_key peer (interested s)")
  case True
  then show ?thesis
    by (simp add: release_def shrinks_def keys_ok_def amset_split distinct_delete)
next
  case False
  show ?thesis
  proof (cases "map_of (requesting s) peer")
    case None
    with False show ?thesis by (simp add: release_def shrinks_refl)
  next
    case (Some r)
    obtain index offset sha1 t n where r: "r = (index, offset, sha1, t, n)"
      by (metis prod_cases5)
    have "keys_ok (release peer s) \<and> amset (release peer s) = amset s" if "keys_ok s"
      using that False Some r mset_delete_present [of "requesting s" peer r]
      by (simp add: release_def keys_ok_def amset_split distinct_delete)
    then show ?thesis
      using False Some r by (auto simp: shrinks_def release_def)
  qed
qed

lemma shrinks_update [simp]:
  "shrinks s0 (s\<lparr>completionDeferred := a\<rparr>) = shrinks s0 s"
  "shrinks s0 (s\<lparr>peers := b\<rparr>) = shrinks s0 s"
  "shrinks s0 (s\<lparr>bitfields := c\<rparr>) = shrinks s0 s"
  "shrinks s0 (s\<lparr>have_bits := d\<rparr>) = shrinks s0 s"
  "shrinks s0 (s\<lparr>tick := g\<rparr>) = shrinks s0 s"
  "shrinks s0 (s\<lparr>pp_interested := h\<rparr>) = shrinks s0 s"
  "shrinks s0 (s\<lparr>pp_choked := i\<rparr>) = shrinks s0 s"
  "shrinks s0 (s\<lparr>sent := j\<rparr>) = shrinks s0 s"
  by (simp_all add: shrinks_def keys_ok_def amset_split)

lemma shrinks_needed:
  "fst ` set nd = fst ` set (needed s) \<Longrightarrow>
   shrinks s0 (s\<lparr>needed := nd\<rparr>) = shrinks s0 s"
  by (simp add: shrinks_def keys_ok_def amset_split)

lemma PeerProxy_shrinks [simp]:
  "shrinks s0 (PeerProxy_interested peer s) = shrinks s0 s"
  "shrinks s0 (PeerProxy_not_interested peer s) = shrinks s0 s"
  "shrinks s0 (PeerProxy_request peer index offset len s) = shrinks s0 s"
  "shrinks s0 (PeerProxy_drop_connection peer s) = shrinks s0 s"
  "shrinks s0 (FileMgr_write_block index offset buf s) = shrinks s0 s"
  by (simp_all add: PeerProxy_interested_def PeerProxy_not_interested_def
      PeerProxy_request_def PeerProxy_drop_connection_def FileMgr_write_block_def)

lemma connect_to_peers_shrinks:
  "shrinks s0 s \<Longrightarrow> shrinks s0 (state_of (connect_to_peers n s))"
  by (simp add: connect_to_peers_def)

lemma handle_addrs_shrinks:
  "shrinks s0 s \<Longrightarrow> shrinks s0 (state_of (handle_addrs addrs s))"
  by (induction addrs arbitrary: s) (auto simp: with_metainfo_def split: option.splits)

lemma release_shrinks': "shrinks s0 s \<Longrightarrow> shrinks s0 (release peer s)"
  by (erule shrinks_trans) (rule release_shrinks)

lemma move_shrinks:
  assumes "map_of (interested s) peer = Some (index, offset, sha1, t)"
  shows "shrinks s
           (s\<lparr>interested := AList.delete peer (interested s),
              requesting := AList.update peer (index, offset, sha1, t', n) (requesting s)\<rparr>)"
proof -
  have "mset (interested s) =
        add_mset (peer, (index, offset, sha1, t)) (mset (AList.delete peer (interested s)))"
    if "distinct (map fst (interested s))"
    using that assms by (rule mset_delete_present)
  then show ?thesis
    by (auto simp: shrinks_def keys_ok_def amset_split distinct_delete distinct_update
        mset_update)
qed

lemma request_shrinks: "shrinks s0 s \<Longrightarrow> shrinks s0 (state_of (request peer s))"
proof -
  have "shrinks s (state_of (request peer s))"
    using move_shrinks [of s peer]
    by (auto simp: request_def Let_def with_metainfo_def shrinks_refl split: option.splits)
  then show "shrinks s0 s \<Longrightarrow> shrinks s0 (state_of (request peer s))"
    by (rule shrinks_trans [rotated])
qed

lemma show_interest_shrinks:
  "shrinks s0 s \<Longrightarrow> shrinks s0 (state_of (show_interest peer s))"
  by (simp add: show_interest_def Let_def request_shrinks)

lemma remove_peer_shrinks:
  "shrinks s0 s \<Longrightarrow> shrinks s0 (state_of (remove_peer peer s))"
  by (simp add: remove_peer_def Let_def release_shrinks' shrinks_needed
      keys_remove_peer_pieces split: option.splits)

lemma peer_unconnected_shrinks:
  "shrinks s0 s \<Longrightarrow> shrinks s0 (state_of (peer_unconnected peer s))"
  unfolding peer_unconnected_def
  by (intro state_of_then_do [where P = "shrinks s0"] remove_peer_shrinks
      connect_to_peers_shrinks)

lemma peer_choked_shrinks:
  "shrinks s0 s \<Longrightarrow> shrinks s0 (state_of (peer_choked peer s))"
  by (simp add: peer_choked_def release_shrinks')

lemma peer_unchoked_shrinks:
  "shrinks s0 s \<Longrightarrow> shrinks s0 (state_of (peer_unchoked peer s))"
  by (simp add: peer_unchoked_def request_shrinks)

lemma delete_interested_shrinks:
  "shrinks s0 s \<Longrightarrow> shrinks s0 (s\<lparr>interested := AList.delete peer (interested s)\<rparr>)"
proof -
  have "shrinks s (s\<lparr>interested := AList.delete peer (interested s)\<rparr>)"
    by (simp add: shrinks_def keys_ok_def amset_split distinct_delete)
  then show "shrinks s0 s \<Longrightarrow> ?thesis"
    by (rule shrinks_trans [rotated])
qed

lemma stale_interest_shrinks:
  "shrinks s0 s \<Longrightarrow> shrinks s0 (state_of (stale_interest items s))"
proof (induction items arbitrary: s)
  case Nil
  then show ?case by simp
next
  case (Cons item items)
  obtain peer index offset sha1 tick0 where item: "item = (peer, (index, offset, sha1, tick0))"
    by (metis prod_cases4)
  show ?case
    unfolding item stale_interest.simps Let_def
    using Cons.prems
    by (auto intro!: state_of_then_do [where P = "shrinks s0"] Cons.IH
        connect_to_peers_shrinks delete_interested_shrinks)
qed

lemma distinct_mset_subseteq:
  assumes "mset ys \<subseteq># mset xs" and "distinct xs"
  shows "distinct ys"
proof -
  have le: "count (mset ys) a \<le> count (mset xs) a" for a
    using assms(1) by (rule mset_subset_eq_count)
  have "count (mset xs) a \<le> 1" for a
    using assms(2) by (simp add: distinct_count_atmost_1)
  then have "count (mset ys) a \<le> 1" for a
    using le [of a] by (rule order_trans [rotated])
  then have "count (mset ys) a = (if a \<in> set ys then 1 else 0)" for a
    by (cases "a \<in> set ys") (auto simp: le_Suc_eq dest!: spec [of _ a])
  then show ?thesis
    by (simp add: distinct_count_atmost_1)
qed

lemma shrinks_assign_ok:
  assumes "shrinks s s'" and "assign_ok s"
  shows "assign_ok s'"
proof -
  from assms have k: "keys_ok s'" and le: "mset (assigned_pieces s') \<subseteq># mset (assigned_pieces s)"
    and n: "fst ` set (needed s') = fst ` set (needed s)"
    by (auto simp: shrinks_def assign_ok_def amset_def)
  from le have "set (assigned_pieces s') \<subseteq> set (assigned_pieces s)"
    by (metis set_mset_mono set_mset_mset)
  with assms(2) k n le show ?thesis
    by (auto simp: assign_ok_def intro: distinct_mset_subseteq)
qed

lemma rarest_needed:
  "(occurences, prs, index) \<in> set (rarest s) \<Longrightarrow>
   (index, (occurences, prs)) \<in> set (needed s) \<and> occurences \<noteq> 0"
  by (auto simp: rarest_def)

lemma resume_shrinks:
  assumes "(index, offset, sha1) \<in> set (partial s)" and "\<not> has_key peer (interested s)"
  shows "shrinks s
           (s\<lparr>partial := remove1 (index, offset, sha1) (partial s),
              interested := AList.update peer (index, offset, sha1, t) (interested s)\<rparr>)"
proof -
  have "mset (partial s) =
        add_mset (index, offset, sha1) (mset (remove1 (index, offset, sha1) (partial s)))"
    using assms(1) by simp
  then have "image_mset (\<lambda>(i, _, _). i) (mset (partial s)) =
        add_mset index
          (image_mset (\<lambda>(i, _, _). i) (mset (remove1 (index, offset, sha1) (partial s))))"
    by (metis (no_types, lifting) image_mset_add_mset old.prod.case)
  moreover have "AList.delete peer (interested s) = interested s"
    using assms(2) by (simp add: has_key_iff)
  ultimately show ?thesis
    by (auto simp: shrinks_def keys_ok_def amset_split distinct_update mset_update
        simp del: mset_remove1)
qed

lemma fresh_assign_ok:
  assumes "assign_ok s" and "\<not> has_key peer (interested s)"
    and "index \<notin> set (assigned_pieces s)" and "index \<in> fst ` set (needed s)"
  shows "assign_ok (s\<lparr>interested := AList.update peer (index, offset, sha1, t) (interested s)\<rparr>)"
proof -
  have "k \<notin> fst ` set d \<Longrightarrow> AList.update k v d = d @ [(k, v)]" for k v
    and d :: "(peer \<times> reservation) list"
    by (induction d) auto
  then have "AList.update peer (index, offset, sha1, t) (interested s) =
        interested s @ [(peer, (index, offset, sha1, t))]"
    using assms(2) by (simp add: has_key_iff)
  then show ?thesis
    using assms by (auto simp: assign_ok_def keys_ok_def assigned_pieces_def has_key_iff)
qed

lemma find_SomeD: "find P xs = Some x \<Longrightarrow> x \<in> set xs \<and> P x"
  by (induction xs) (auto split: if_splits)

lemma assigned_pieces_dont_consider:
  "assigned_pieces s = dont_consider s @ map (\<lambda>(i, _, _). i) (partial s)"
  by (simp add: assigned_pieces_def dont_consider_def split_def comp_def)

lemma assign_ok_shrinks_step:
  "assign_ok s \<Longrightarrow> shrinks s s' \<Longrightarrow> assign_ok s'"
  by (rule shrinks_assign_ok)

lemma show_interest_assign:
  "assign_ok s \<Longrightarrow> assign_ok (state_of (show_interest peer s))"
  using show_interest_shrinks [OF shrinks_refl] by (rule shrinks_assign_ok)

lemma request_assign: "assign_ok s \<Longrightarrow> assign_ok (state_of (request peer s))"
  using request_shrinks [OF shrinks_refl] by (rule shrinks_assign_ok)

lemma check_interest_assign:
  assumes ok: "assign_ok s"
  shows "assign_ok (state_of (check_interest peer s))"
proof (cases "\<not> has_key peer (interested s) \<and> \<not> has_key peer (requesting s)")
  case False
  then show ?thesis using ok by (auto simp: check_interest_def)
next
  case free: True
  show ?thesis
  proof (cases "map_of (bitfields s) peer")
    case None
    then show ?thesis using ok free by (simp add: check_interest_def)
  next
    case (Some bf)
    define of_interest where "of_interest = findall True (bit_and (invert (have_bits s)) bf)"
    define resumed where "resumed =
      (if length of_interest > 0
       then find (\<lambda>(index, offset, sha1). index \<in> set of_interest) (partial s) else None)"
    define fresh where "fresh =
      (if length of_interest > 0
       then find (\<lambda>(_, _, index). index \<in> set of_interest \<and> index \<notin> set (dont_consider s))
              (rarest s)
       else None)"
    have unfold: "check_interest peer s =
      (if length (have_bits s) \<noteq> length bf then Raised ValueError s
       else (case resumed of
               Some (index, offset, sha1) \<Rightarrow>
                 show_interest peer
                   (s\<lparr>partial := remove1 (index, offset, sha1) (partial s),
                      interested :=
                        AList.update peer (index, offset, sha1, tick s) (interested s)\<rparr>)
             | None \<Rightarrow>
                 (case fresh of
                    Some (_, _, index) \<Rightarrow>
                      show_interest peer
                        (s\<lparr>interested :=
                             AList.update peer (index, 0, [], tick s) (interested s)\<rparr>)
                  | None \<Rightarrow>
                      if \<not> has_key peer (interested s) \<and> PeerProxy_is_interested peer s
                      then connect_to_peers 1 (PeerProxy_not_interested peer s)
                      else Returned s)))"
      unfolding check_interest_def Let_def of_interest_def resumed_def fresh_def
      using free Some by (simp cong: option.case_cong)
    show ?thesis
    proof (cases "length (have_bits s) \<noteq> length bf")
      case True
      then show ?thesis using ok by (simp add: unfold)
    next
      case len: False
      show ?thesis
      proof (cases resumed)
        case (Some r)
        obtain index offset sha1 where r: "r = (index, offset, sha1)"
          by (cases r) auto
        from Some r have "(index, offset, sha1) \<in> set (partial s)"
          by (auto simp: resumed_def dest!: find_SomeD split: if_splits)
        then have "shrinks s
           (s\<lparr>partial := remove1 (index, offset, sha1) (partial s),
              interested := AList.update peer (index, offset, sha1, tick s) (interested s)\<rparr>)"
          using free by (intro resume_shrinks) auto
        then have "shrinks s (state_of (show_interest peer
           (s\<lparr>partial := remove1 (index, offset, sha1) (partial s),
              interested := AList.update peer (index, offset, sha1, tick s) (interested s)\<rparr>)))"
          by (rule show_interest_shrinks)
        then have "assign_ok (state_of (show_interest peer
           (s\<lparr>partial := remove1 (index, offset, sha1) (partial s),
              interested := AList.update peer (index, offset, sha1, tick s) (interested s)\<rparr>)))"
          using ok by (rule shrinks_assign_ok)
        then show ?thesis using len Some r by (simp add: unfold)
      next
        case nores: None
        show ?thesis
        proof (cases fresh)
          case None
          then show ?thesis
            using len nores ok
            by (simp add: unfold connect_to_peers_def PeerProxy_not_interested_def
                assign_ok_def keys_ok_def assigned_pieces_def)
        next
          case (Some f)
          obtain occurences prs index where f: "f = (occurences, prs, index)"
            by (cases f) auto
          from Some f have nonempty: "length of_interest > 0"
            and found: "(occurences, prs, index) \<in> set (rarest s)"
            and oi: "index \<in> set of_interest" and dc: "index \<notin> set (dont_consider s)"
            by (auto simp: fresh_def dest!: find_SomeD split: if_splits)
          from nores nonempty oi have "index \<notin> set (map (\<lambda>(i, _, _). i) (partial s))"
            by (auto simp: resumed_def find_None_iff)
          with dc have "index \<notin> set (assigned_pieces s)"
            by (simp add: assigned_pieces_dont_consider)
          moreover from found have "index \<in> fst ` set (needed s)"
            by (auto dest!: rarest_needed intro: rev_image_eqI)
          ultimately have "assign_ok
            (s\<lparr>interested := AList.update peer (index, 0, [], tick s) (interested s)\<rparr>)"
            using ok free by (intro fresh_assign_ok) auto
          then have "assign_ok (state_of (show_interest peer
            (s\<lparr>interested := AList.update peer (index, 0, [], tick s) (interested s)\<rparr>)))"
            by (rule show_interest_assign)
          then show ?thesis using len nores Some f by (simp add: unfold)
        qed
      qed
    qed
  qed
qed

lemma assign_ok_update [simp]:
  "assign_ok (s\<lparr>completionDeferred := a\<rparr>) = assign_ok s"
  "assign_ok (s\<lparr>peers := b\<rparr>) = assign_ok s"
  "assign_ok (s\<lparr>bitfields := c\<rparr>) = assign_ok s"
  "assign_ok (s\<lparr>have_bits := d\<rparr>) = assign_ok s"
  "assign_ok (s\<lparr>tick := g\<rparr>) = assign_ok s"
  "assign_ok (s\<lparr>pp_interested := h\<rparr>) = assign_ok s"
  "assign_ok (s\<lparr>pp_choked := i\<rparr>) = assign_ok s"
  "assign_ok (s\<lparr>sent := j\<rparr>) = assign_ok s"
  "assign_ok (s\<lparr>state := k\<rparr>) = assign_ok s"
  by (simp_all add: assign_ok_def keys_ok_def assigned_pieces_def)

lemma assign_ok_needed:
  "fst ` set nd = fst ` set (needed s) \<Longrightarrow> assign_ok (s\<lparr>needed := nd\<rparr>) = assign_ok s"
  by (simp add: assign_ok_def keys_ok_def assigned_pieces_def)

lemma progress_assign:
  assumes "assign_ok s" and "map_of (requesting s) peer = Some (index, offset, sha1, t, n)"
  shows "assign_ok
    (s\<lparr>requesting := AList.update peer (index, offset', sha1', t', n') (requesting s)\<rparr>)"
proof -
  from assms have d: "distinct (map fst (requesting s))"
    by (simp add: assign_ok_def keys_ok_def)
  have "mset (requesting s) =
        add_mset (peer, (index, offset, sha1, t, n)) (mset (AList.delete peer (requesting s)))"
    using d assms(2) by (rule mset_delete_present)
  then have "amset (s\<lparr>requesting :=
               AList.update peer (index, offset', sha1', t', n') (requesting s)\<rparr>) = amset s"
    using d by (simp add: amset_split mset_update)
  then have "shrinks s
    (s\<lparr>requesting := AList.update peer (index, offset', sha1', t', n') (requesting s)\<rparr>)"
    by (simp add: shrinks_def keys_ok_def distinct_update)
  then show ?thesis using assms(1) by (rule shrinks_assign_ok)
qed

lemma finished_assign:
  assumes "assign_ok s" and "map_of (requesting s) peer = Some (index, offset, sha1, t, n)"
  shows "assign_ok
    (s\<lparr>requesting := AList.delete peer (requesting s),
       needed := AList.delete index (needed s)\<rparr>)"
proof -
  let ?s' = "s\<lparr>requesting := AList.delete peer (requesting s)\<rparr>"
  from assms have d: "distinct (map fst (requesting s))"
    by (simp add: assign_ok_def keys_ok_def)
  have "mset (requesting s) =
        add_mset (peer, (index, offset, sha1, t, n)) (mset (AList.delete peer (requesting s)))"
    using d assms(2) by (rule mset_delete_present)
  then have eq: "mset (assigned_pieces s) = add_mset index (mset (assigned_pieces ?s'))"
    using amset_split [of s] amset_split [of ?s'] by (simp add: amset_def)
  then have le: "mset (assigned_pieces ?s') \<subseteq># mset (assigned_pieces s)"
    by simp
  from assms(1) have dist: "distinct (assigned_pieces s)"
    by (simp add: assign_ok_def)
  have dist': "distinct (assigned_pieces ?s')"
    using le dist by (rule distinct_mset_subseteq)
  have "count (mset (assigned_pieces s)) index \<le> 1"
    using dist by (simp add: distinct_count_atmost_1)
  moreover have "count (mset (assigned_pieces s)) index =
      Suc (count (mset (assigned_pieces ?s')) index)"
    by (simp add: eq)
  ultimately have "count (mset (assigned_pieces ?s')) index = 0"
    by linarith
  then have notin: "index \<notin> set (assigned_pieces ?s')"
    by simp
  have "set (assigned_pieces ?s') \<subseteq> set (assigned_pieces s)"
    using le by (metis set_mset_mono set_mset_mset)
  with assms(1) notin have "set (assigned_pieces ?s') \<subseteq> fst ` set (needed s) - {index}"
    by (auto simp: assign_ok_def)
  moreover have "assigned_pieces (s\<lparr>requesting := AList.delete peer (requesting s),
       needed := AList.delete index (needed s)\<rparr>) = assigned_pieces ?s'"
    by (simp add: assigned_pieces_def)
  ultimately show ?thesis
    using assms(1) dist'
    by (simp add: assign_ok_def keys_ok_def keys_delete distinct_delete)
qed

lemma remove_peer_assign: "assign_ok s \<Longrightarrow> assign_ok (state_of (remove_peer peer s))"
  using remove_peer_shrinks [OF shrinks_refl] by (rule shrinks_assign_ok)

lemma connect_to_peers_assign:
  "assign_ok s \<Longrightarrow> assign_ok (state_of (connect_to_peers n s))"
  by (simp add: connect_to_peers_def)

lemma completion_callback_assign:
  "assign_ok s \<Longrightarrow> assign_ok (state_of (completion_callback s))"
  by (simp add: completion_callback_def split: option.splits bool.splits)

lemma PeerProxy_assign [simp]:
  "assign_ok (PeerProxy_interested peer s) = assign_ok s"
  "assign_ok (PeerProxy_not_interested peer s) = assign_ok s"
  "assign_ok (PeerProxy_request peer index offset len s) = assign_ok s"
  "assign_ok (PeerProxy_drop_connection peer s) = assign_ok s"
  "assign_ok (FileMgr_write_block index offset buf s) = assign_ok s"
  by (simp_all add: PeerProxy_interested_def PeerProxy_not_interested_def
      PeerProxy_request_def PeerProxy_drop_connection_def FileMgr_write_block_def)

lemma peer_bitfield_assign:
  "assign_ok s \<Longrightarrow> assign_ok (state_of (peer_bitfield peer bitfield s))"
  unfolding peer_bitfield_def Let_def
  by (auto simp: with_metainfo_def assign_ok_needed keys_add_peer_pieces
      check_interest_assign remove_peer_assign connect_to_peers_assign
      split: option.splits
      intro!: state_of_then_do [where P = assign_ok])

lemma peer_has_assign:
  "assign_ok s \<Longrightarrow> assign_ok (state_of (peer_has peer index s))"
  unfolding peer_has_def Let_def
  by (auto simp: with_metainfo_def assign_ok_needed keys_add_peer_piece
      check_interest_assign split: option.splits)

lemma handle_addrs_assign:
  "assign_ok s \<Longrightarrow> assign_ok (state_of (handle_addrs addrs s))"
  using handle_addrs_shrinks [OF shrinks_refl] by (rule shrinks_assign_ok)

lemma peer_unconnected_assign:
  "assign_ok s \<Longrightarrow> assign_ok (state_of (peer_unconnected peer s))"
  using peer_unconnected_shrinks [OF shrinks_refl] by (rule shrinks_assign_ok)

lemma peer_choked_assign:
  "assign_ok s \<Longrightarrow> assign_ok (state_of (peer_choked peer s))"
  using peer_choked_shrinks [OF shrinks_refl] by (rule shrinks_assign_ok)

lemma peer_unchoked_assign:
  "assign_ok s \<Longrightarrow> assign_ok (state_of (peer_unchoked peer s))"
  using peer_unchoked_shrinks [OF shrinks_refl] by (rule shrinks_assign_ok)

lemma piece_received_returns:
  assumes "partition_ok s" and "has_key index (needed s)"
  shows "piece_received index s =
         Returned (s\<lparr>needed := AList.delete index (needed s),
                     have_bits := (have_bits s)[index := True]\<rparr>)"
proof -
  from assms obtain mi where mi: "metainfo s = Some mi"
    and st: "state s \<noteq> Uninitialized" and len: "length (have_bits s) = num_pieces mi"
    and keys: "fst ` set (needed s) = set (findall False (have_bits s))"
    by (auto simp: partition_ok_def split: option.splits)
  from assms(2) keys have idx: "index < length (have_bits s)"
    by (auto simp: has_key_iff set_findall)
  with len have "num_pieces mi \<noteq> 0" by auto
  then have "\<exists>r. percent (s\<lparr>needed := AList.delete index (needed s)\<rparr>) = Inr r"
    using mi st by (simp add: percent_def)
  then show ?thesis
    using assms(2) idx by (auto simp: piece_received_def Let_def)
qed

lemma peer_sent_block_assign:
  assumes p: "partition_ok s" and a: "assign_ok s"
  shows "assign_ok (state_of (peer_sent_block digest peer index begin buf s))"
proof (cases "map_of (requesting s) peer")
  case None
  then show ?thesis using a by (simp add: peer_sent_block_def)
next
  case (Some r)
  obtain piece received_bytes sha1 t n where r: "r = (piece, received_bytes, sha1, t, n)"
    by (metis prod_cases5)
  show ?thesis
  proof (cases "piece = index \<and> begin = received_bytes")
    case False
    then show ?thesis using a Some r by (auto simp: peer_sent_block_def)
  next
    case True
    let ?s1 = "FileMgr_write_block index begin buf s"
    let ?s2 = "?s1\<lparr>requesting := AList.update peer
           (piece, received_bytes + int (length buf), sha1 @ buf, tick ?s1, 0)
           (requesting ?s1)\<rparr>"
    have a1: "assign_ok ?s1"
      using a by simp
    have r1: "map_of (requesting ?s1) peer = Some (piece, received_bytes, sha1, t, n)"
      using Some r by (simp add: FileMgr_write_block_def)
    have a2: "assign_ok ?s2"
      using a1 r1 by (rule progress_assign)
    have p2: "partition_ok ?s2"
      using p by (simp add: FileMgr_write_block_def)
    have r2: "map_of (requesting ?s2) peer =
        Some (index, received_bytes + int (length buf), sha1 @ buf, tick ?s1, 0)"
      using True by (simp add: update_conv')
    have tail: "assign_ok (state_of
        (let s4 = s3\<lparr>requesting := AList.delete peer (requesting s3)\<rparr>
         in if needed s4 \<noteq> [] then check_interest peer s4 else completion_callback s4))"
      if "assign_ok (s3\<lparr>requesting := AList.delete peer (requesting s3)\<rparr>)" for s3
      using that by (simp add: Let_def check_interest_assign completion_callback_assign)
    have del2: "assign_ok (?s2\<lparr>requesting := AList.delete peer (requesting ?s2)\<rparr>)"
    proof -
      have "shrinks ?s2 (?s2\<lparr>requesting := AList.delete peer (requesting ?s2)\<rparr>)"
        by (simp add: shrinks_def keys_ok_def amset_split distinct_delete)
      then show ?thesis using a2 by (rule shrinks_assign_ok)
    qed
    have verified: "assign_ok (state_of (then_do (piece_received index ?s2)
        (\<lambda>s3. let s4 = s3\<lparr>requesting := AList.delete peer (requesting s3)\<rparr>
              in if needed s4 \<noteq> [] then check_interest peer s4 else completion_callback s4)))"
    proof (cases "has_key index (needed ?s2)")
      case False
      then show ?thesis using a2 by (simp add: piece_received_def)
    next
      case True
      have "assign_ok
        (?s2\<lparr>requesting := AList.delete peer (requesting ?s2),
            needed := AList.delete index (needed ?s2)\<rparr>)"
        using a2 r2 by (rule finished_assign)
      then have "assign_ok
        ((?s2\<lparr>needed := AList.delete index (needed ?s2),
             have_bits := (have_bits ?s2)[index := True]\<rparr>)
          \<lparr>requesting := AList.delete peer (requesting ?s2)\<rparr>)"
        by (simp add: assign_ok_def keys_ok_def assigned_pieces_def)
      then show ?thesis
        using tail [of "?s2\<lparr>needed := AList.delete index (needed ?s2),
             have_bits := (have_bits ?s2)[index := True]\<rparr>"]
        by (simp add: piece_received_returns [OF p2 True])
    qed
    have unverified: "assign_ok (state_of (then_do (Returned ?s2)
        (\<lambda>s3. let s4 = s3\<lparr>requesting := AList.delete peer (requesting s3)\<rparr>
              in if needed s4 \<noteq> [] then check_interest peer s4 else completion_callback s4)))"
      using tail [OF del2] by simp
    show ?thesis
      using Some r True a2 verified unverified
      by (auto simp: peer_sent_block_def Let_def with_metainfo_def request_assign
          split: option.splits)
  qed
qed

lemma spill_shrinks:
  assumes "map_of (requesting s) peer = Some (index, offset, sha1, t, n)"
  shows "shrinks s
    (s\<lparr>partial := partial s @ [(index, offset, sha1)],
       requesting := AList.delete peer (requesting s)\<rparr>)"
proof -
  have "mset (requesting s) =
        add_mset (peer, (index, offset, sha1, t, n)) (mset (AList.delete peer (requesting s)))"
    if "distinct (map fst (requesting s))"
    using that assms by (rule mset_delete_present)
  then show ?thesis
    by (auto simp: shrinks_def keys_ok_def amset_split distinct_delete)
qed

lemma request_requesting_other:
  "q \<noteq> peer \<Longrightarrow>
   map_of (requesting (state_of (request peer s))) q = map_of (requesting s) q"
  by (auto simp: request_def Let_def with_metainfo_def PeerProxy_request_def update_conv'
      split: option.splits)

lemma stale_request_assign:
  "assign_ok s \<Longrightarrow> snapshot_ok items s \<Longrightarrow> assign_ok (state_of (stale_request items s))"
proof (induction items arbitrary: s)
  case Nil
  then show ?case by simp
next
  case (Cons item items)
  obtain peer index offset sha1 tick0 retries
    where item: "item = (peer, (index, offset, sha1, tick0, retries))"
    by (metis prod_cases5)
  from Cons.prems(2) have cur: "map_of (requesting s) peer = Some (index, offset, sha1, tick0, retries)"
    and notin: "peer \<notin> fst ` set items" and rest: "snapshot_ok items s"
    by (auto simp: snapshot_ok_def item)
  have step: "assign_ok (state_of (then_do r (stale_request items)))"
    if "assign_ok (state_of r)" and "snapshot_ok items (state_of r)" for r
    using that by (cases r) (auto intro: Cons.IH)
  show ?case
  proof (cases "tick0 + 5 = tick s")
    case False
    then show ?thesis
      using Cons.IH [OF Cons.prems(1) rest] by (simp add: item)
  next
    case stale: True
    show ?thesis
    proof (cases "retries < MAX_RETRIES")
      case True
      let ?s' = "s\<lparr>requesting :=
                     AList.update peer (index, offset, sha1, tick s, retries + 1)
                       (requesting s)\<rparr>"
      have "assign_ok ?s'"
        using Cons.prems(1) cur by (rule progress_assign)
      then have a: "assign_ok (state_of (request peer ?s'))"
        by (rule request_assign)
      have "map_of (requesting (state_of (request peer ?s'))) (fst x) = Some (snd x)"
        if "x \<in> set items" for x
      proof -
        from that notin have "fst x \<noteq> peer" by auto
        then have "map_of (requesting (state_of (request peer ?s'))) (fst x) =
            map_of (requesting s) (fst x)"
          by (simp add: request_requesting_other update_conv')
        with rest that show ?thesis by (simp add: snapshot_ok_def)
      qed
      with rest have "snapshot_ok items (state_of (request peer ?s'))"
        by (simp add: snapshot_ok_def)
      with a have "assign_ok (state_of (then_do (request peer ?s') (stale_request items)))"
        by (rule step)
      then show ?thesis using stale True by (simp add: item)
    next
      case False
      let ?s1 = "s\<lparr>partial := partial s @ [(index, offset, sha1)]\<rparr>"
      let ?s2 = "PeerProxy_not_interested peer
                   (?s1\<lparr>requesting := AList.delete peer (requesting ?s1)\<rparr>)"
      have "shrinks s (s\<lparr>partial := partial s @ [(index, offset, sha1)],
                          requesting := AList.delete peer (requesting s)\<rparr>)"
        using cur by (rule spill_shrinks)
      then have "assign_ok (s\<lparr>partial := partial s @ [(index, offset, sha1)],
                          requesting := AList.delete peer (requesting s)\<rparr>)"
        using Cons.prems(1) by (rule shrinks_assign_ok)
      then have a: "assign_ok (state_of (connect_to_peers 1 ?s2))"
        by (simp add: connect_to_peers_def)
      have "map_of (requesting (state_of (connect_to_peers 1 ?s2))) (fst x) = Some (snd x)"
        if "x \<in> set items" for x
      proof -
        from that notin have "fst x \<noteq> peer" by auto
        then have "map_of (requesting (state_of (connect_to_peers 1 ?s2))) (fst x) =
            map_of (requesting s) (fst x)"
          by (simp add: connect_to_peers_def PeerProxy_not_interested_def delete_conv')
        with rest that show ?thesis by (simp add: snapshot_ok_def)
      qed
      with rest have "snapshot_ok items (state_of (connect_to_peers 1 ?s2))"
        by (simp add: snapshot_ok_def)
      with a have "assign_ok (state_of (then_do (connect_to_peers 1 ?s2)
          (stale_request items)))"
        by (rule step)
      moreover have "has_key peer (requesting ?s1)"
        using cur by (simp add: has_key_def)
      ultimately show ?thesis using stale False by (simp add: item Let_def)
    qed
  qed
qed

lemma stale_interest_assign:
  "assign_ok s \<Longrightarrow> assign_ok (state_of (stale_interest items s))"
  using stale_interest_shrinks [OF shrinks_refl] by (rule shrinks_assign_ok)

lemma snapshot_ok_self:
  "distinct (map fst (requesting s)) \<Longrightarrow> snapshot_ok (requesting s) s"
  by (auto simp: snapshot_ok_def)

lemma timer_event_assign:
  assumes "assign_ok s"
  shows "assign_ok (state_of (timer_event s))"
proof -
  have "assign_ok (state_of (stale_request (requesting s2) s2))" if "assign_ok s2" for s2
    using that by (intro stale_request_assign snapshot_ok_self) (auto simp: assign_ok_def keys_ok_def)
  then show ?thesis
    unfolding timer_event_def Let_def
    using assms
    by (intro state_of_then_do [where P = assign_ok] stale_interest_assign) simp_all
qed

lemma start_assign: "assign_ok s \<Longrightarrow> assign_ok (state_of (start s))"
  by (simp add: start_def connect_to_peers_def)

lemma initialize_assign:
  "assign_ok (success (snd (initialize (Loaded mi) hv s0)))" if "state s0 = Uninitialized"
  using that
  by (simp add: initialize_def success_def assign_ok_def keys_ok_def assigned_pieces_def)

lemma handle_assign:
  assumes "partition_ok s" and "assign_ok s"
  shows "assign_ok (state_of (handle digest ev s))"
  using assms
  by (cases ev)
    (simp_all add: peer_sent_block_assign handle_addrs_assign peer_unconnected_assign
      peer_bitfield_assign peer_has_assign peer_choked_assign peer_unchoked_assign
      timer_event_assign peer_interested_def peer_not_interested_def peer_request_def
      peer_canceled_def)

lemma reachable_assign: "reachable digest s \<Longrightarrow> assign_ok s"
proof (induction rule: reachable.induct)
  case (reach_initialize s0 hv mi)
  then show ?case by (simp add: initialize_assign)
next
  case (reach_start s)
  then show ?case by (simp add: start_assign)
next
  case (reach_event s ev)
  then show ?case by (simp add: handle_assign reachable_partition)
qed

lemma same_pieces_state: "same_pieces s s' \<Longrightarrow> state s' = state s"
  by (simp add: same_pieces_def)

lemma piece_received_state: "state (state_of (piece_received index s)) = state s"
  by (simp add: piece_received_def Let_def split: sum.splits)

lemma peer_sent_block_state:
  "state (state_of (peer_sent_block digest peer index begin buf s)) = state s"
proof -
  have req: "state (state_of (request peer s')) = state s'" for s'
    using request_pieces [OF same_pieces_refl] by (rule same_pieces_state)
  have chk: "state (state_of (check_interest peer s')) = state s'" for s'
    using check_interest_pieces [OF same_pieces_refl] by (rule same_pieces_state)
  have cb: "state (state_of (completion_callback s')) = state s'" for s'
    by (simp add: completion_callback_def split: option.splits bool.splits)
  have tail: "state (state_of (then_do r
      (\<lambda>s3. if needed s3 \<noteq> []
            then check_interest peer (s3\<lparr>requesting := AList.delete peer (requesting s3)\<rparr>)
            else completion_callback (s3\<lparr>requesting := AList.delete peer (requesting s3)\<rparr>))))
      = state (state_of r)" for r
    by (cases r) (simp_all add: chk cb)
  show ?thesis
    by (simp add: peer_sent_block_def Let_def with_metainfo_def req tail piece_received_state
        FileMgr_write_block_def split: option.splits)
qed

lemma handle_state: "state (state_of (handle digest ev s)) = state s"
proof (cases ev)
  case (PeerSentBlock peer index offs buf)
  then show ?thesis by (simp add: peer_sent_block_state)
qed (simp_all add: same_pieces_state [OF handle_addrs_pieces [OF same_pieces_refl]]
    same_pieces_state [OF peer_unconnected_pieces [OF same_pieces_refl]]
    same_pieces_state [OF peer_bitfield_pieces [OF same_pieces_refl]]
    same_pieces_state [OF peer_has_pieces [OF same_pieces_refl]]
    same_pieces_state [OF peer_choked_pieces [OF same_pieces_refl]]
    same_pieces_state [OF peer_unchoked_pieces [OF same_pieces_refl]]
    same_pieces_state [OF timer_event_pieces [OF same_pieces_refl]]
    peer_interested_def peer_not_interested_def peer_request_def peer_canceled_def)

lemma reachable_run:
  "reachable digest s \<Longrightarrow> state s = Started \<Longrightarrow> reachable digest (run digest evs s)"
proof (induction evs arbitrary: s)
  case Nil
  then show ?case by (simp add: run_def)
next
  case (Cons ev evs)
  have "reachable digest (run digest evs (state_of (handle digest ev s)))"
    using Cons.prems by (intro Cons.IH reach_event) (simp_all add: handle_state)
  then show ?case by (simp add: run_def)
qed

lemma ex_started_reachable: "reachable digest ex_started"
  unfolding ex_started_def
  by (intro reach_start reach_initialize) (simp_all add: TorrentMgr_init_def ex_mi_def)

lemma ex_started_state: "state ex_started = Started"
  by (simp add: ex_started_def start_def initialize_def success_def TorrentMgr_init_def
      connect_to_peers_def)

lemma ex_requesting_reachable: "reachable ex_digest ex_requesting"
  unfolding ex_requesting_def
  by (intro reachable_run ex_started_reachable ex_started_state)

lemma run_state: "state (run digest evs s) = state s"
proof (induction evs arbitrary: s)
  case Nil
  then show ?case by (simp add: run_def)
next
  case (Cons ev evs)
  have "state (run digest evs (state_of (handle digest ev s))) = state s"
    by (simp only: Cons.IH handle_state)
  then show ?case by (simp add: run_def)
qed

lemma ex_requesting_state: "state ex_requesting = Started"
  by (simp only: ex_requesting_def run_state ex_started_state)

lemma ex_two_assigned_reachable: "reachable ex_digest ex_two_assigned"
  unfolding ex_two_assigned_def
  by (intro reachable_run ex_requesting_reachable ex_requesting_state)

lemma reachable_metainfo: "reachable digest s \<Longrightarrow> \<exists>mi. metainfo s = Some mi"
  by (drule reachable_partition) (simp add: partition_ok_def split: option.splits)

lemma requesting_assigned:
  "map_of (requesting s) peer = Some (index, offset, sha1, t, n) \<Longrightarrow>
   index \<in> set (assigned_pieces s)"
  by (auto simp: assigned_pieces_def dest!: map_of_SomeD intro!: rev_image_eqI)

lemma verified_piece:
  assumes p: "partition_ok s" and a: "assign_ok s" and mi: "metainfo s = Some mi"
    and r: "map_of (requesting s) peer = Some (index, begin, sha1, t, n)"
    and last: "\<not> begin + int (length buf) < length_of_piece mi index"
    and hash: "digest (sha1 @ buf) = piece_hash mi index"
  shows "\<not> has_key index (needed (state_of (peer_sent_block digest peer index begin buf s)))
    \<and> index < length (have_bits (state_of (peer_sent_block digest peer index begin buf s)))
    \<and> have_bits (state_of (peer_sent_block digest peer index begin buf s)) ! index"
proof -
  let ?s1 = "FileMgr_write_block index begin buf s"
  let ?s2 = "?s1\<lparr>requesting := AList.update peer
           (index, begin + int (length buf), sha1 @ buf, tick ?s1, 0) (requesting ?s1)\<rparr>"
  let ?s3 = "?s2\<lparr>needed := AList.delete index (needed ?s2),
                 have_bits := (have_bits ?s2)[index := True]\<rparr>"
  let ?s4 = "?s3\<lparr>requesting := AList.delete peer (requesting ?s3)\<rparr>"
  let ?s' = "state_of (peer_sent_block digest peer index begin buf s)"
  from r a have key: "has_key index (needed s)"
    by (auto simp: assign_ok_def has_key_iff dest!: requesting_assigned)
  then have key2: "has_key index (needed ?s2)"
    by (simp add: FileMgr_write_block_def)
  have p2: "partition_ok ?s2"
    using p by (simp add: FileMgr_write_block_def)
  from key p mi have idx: "index < length (have_bits s)"
    by (auto simp: partition_ok_def has_key_iff set_findall)
  have "peer_sent_block digest peer index begin buf s =
        (if needed ?s4 \<noteq> [] then check_interest peer ?s4 else completion_callback ?s4)"
    using r mi last hash piece_received_returns [OF p2 key2]
    by (simp add: peer_sent_block_def Let_def with_metainfo_def FileMgr_write_block_def)
  moreover have "same_pieces ?s4 (state_of (check_interest peer ?s4))"
    by (intro check_interest_pieces same_pieces_refl)
  moreover have "same_pieces ?s4 (state_of (completion_callback ?s4))"
    by (simp add: completion_callback_def same_pieces_def split: option.splits bool.splits)
  ultimately have same: "same_pieces ?s4 ?s'"
    by (simp split: if_splits)
  then have "fst ` set (needed ?s') = fst ` set (needed s) - {index}"
    and "have_bits ?s' = (have_bits s)[index := True]"
    by (simp_all add: same_pieces_def FileMgr_write_block_def keys_delete)
  with idx show ?thesis
    by (simp add: has_key_iff)
qed

lemma same_avail_refl: "same_avail s s"
  by (simp add: same_avail_def)

lemma same_avail_ok: "same_avail s s' \<Longrightarrow> avail_ok s \<Longrightarrow> avail_ok s'"
  by (simp add: same_avail_def avail_ok_def)

lemma same_avail_update [simp]:
  "same_avail s0 (s\<lparr>completionDeferred := a\<rparr>) = same_avail s0 s"
  "same_avail s0 (s\<lparr>peers := b\<rparr>) = same_avail s0 s"
  "same_avail s0 (s\<lparr>have_bits := c\<rparr>) = same_avail s0 s"
  "same_avail s0 (s\<lparr>interested := d\<rparr>) = same_avail s0 s"
  "same_avail s0 (s\<lparr>requesting := e\<rparr>) = same_avail s0 s"
  "same_avail s0 (s\<lparr>partial := f\<rparr>) = same_avail s0 s"
  "same_avail s0 (s\<lparr>tick := g\<rparr>) = same_avail s0 s"
  "same_avail s0 (s\<lparr>pp_interested := h\<rparr>) = same_avail s0 s"
  "same_avail s0 (s\<lparr>pp_choked := i\<rparr>) = same_avail s0 s"
  "same_avail s0 (s\<lparr>sent := j\<rparr>) = same_avail s0 s"
  "same_avail s0 (s\<lparr>state := k\<rparr>) = same_avail s0 s"
  by (simp_all add: same_avail_def)

lemma PeerProxy_avail [simp]:
  "same_avail s0 (PeerProxy_interested peer s) = same_avail s0 s"
  "same_avail s0 (PeerProxy_not_interested peer s) = same_avail s0 s"
  "same_avail s0 (PeerProxy_request peer index offset len s) = same_avail s0 s"
  "same_avail s0 (PeerProxy_drop_connection peer s) = same_avail s0 s"
  "same_avail s0 (FileMgr_write_block index offset buf s) = same_avail s0 s"
  by (simp_all add: PeerProxy_interested_def PeerProxy_not_interested_def
      PeerProxy_request_def PeerProxy_drop_connection_def FileMgr_write_block_def)

lemma connect_to_peers_avail:
  "same_avail s0 s \<Longrightarrow> same_avail s0 (state_of (connect_to_peers n s))"
  by (simp add: connect_to_peers_def)

lemma completion_callback_avail:
  "same_avail s0 s \<Longrightarrow> same_avail s0 (state_of (completion_callback s))"
  by (simp add: completion_callback_def split: option.splits bool.splits)

lemma release_avail: "same_avail s0 s \<Longrightarrow> same_avail s0 (release peer s)"
  by (simp add: release_def split: option.splits)

lemma request_avail: "same_avail s0 s \<Longrightarrow> same_avail s0 (state_of (request peer s))"
  by (simp add: request_def Let_def with_metainfo_def split: option.splits)

lemma show_interest_avail:
  "same_avail s0 s \<Longrightarrow> same_avail s0 (state_of (show_interest peer s))"
  by (simp add: show_interest_def Let_def request_avail)

lemma check_interest_avail:
  "same_avail s0 s \<Longrightarrow> same_avail s0 (state_of (check_interest peer s))"
  by (simp add: check_interest_def Let_def show_interest_avail connect_to_peers_avail
      split: option.splits)

lemma peer_choked_avail:
  "same_avail s0 s \<Longrightarrow> same_avail s0 (state_of (peer_choked peer s))"
  by (simp add: peer_choked_def release_avail)

lemma peer_unchoked_avail:
  "same_avail s0 s \<Longrightarrow> same_avail s0 (state_of (peer_unchoked peer s))"
  by (simp add: peer_unchoked_def request_avail)

lemma stale_interest_avail:
  "same_avail s0 s \<Longrightarrow> same_avail s0 (state_of (stale_interest items s))"
proof (induction items arbitrary: s)
  case Nil
  then show ?case by simp
next
  case (Cons item items)
  obtain peer index offset sha1 tick0 where item: "item = (peer, (index, offset, sha1, tick0))"
    by (metis prod_cases4)
  show ?case
    unfolding item stale_interest.simps Let_def
    using Cons.prems
    by (auto intro!: state_of_then_do [where P = "same_avail s0"] Cons.IH
        connect_to_peers_avail)
qed

lemma stale_request_avail:
  "same_avail s0 s \<Longrightarrow> same_avail s0 (state_of (stale_request items s))"
proof (induction items arbitrary: s)
  case Nil
  then show ?case by simp
next
  case (Cons item items)
  obtain peer index offset sha1 tick0 retries
    where item: "item = (peer, (index, offset, sha1, tick0, retries))"
    by (metis prod_cases5)
  show ?case
    unfolding item stale_request.simps Let_def
    using Cons.prems
    by (auto intro!: state_of_then_do [where P = "same_avail s0"] Cons.IH request_avail
        connect_to_peers_avail)
qed

lemma timer_event_avail:
  "same_avail s0 s \<Longrightarrow> same_avail s0 (state_of (timer_event s))"
  unfolding timer_event_def Let_def
  by (auto intro!: state_of_then_do [where P = "same_avail s0"] stale_interest_avail
      stale_request_avail)

lemma avail_ok_alt:
  "avail_ok s \<longleftrightarrow>
     needed_wf (needed s) \<and>
     (\<forall>peer bf. map_of (bitfields s) peer = Some bf \<longrightarrow>
        (case metainfo s of None \<Rightarrow> False | Some mi \<Rightarrow> length bf = num_pieces mi) \<and>
        listed (needed s) peer bf)"
  unfolding avail_ok_def needed_wf_def listed_def by (simp only: conj_assoc)

lemma needed_wf_update:
  assumes "needed_wf nd" and "occurences = int (length prs)"
  shows "needed_wf (AList.update piece (occurences, prs) nd)"
proof -
  have "distinct (map fst (AList.update piece (occurences, prs) nd))"
    using assms(1) by (simp add: needed_wf_def distinct_update)
  moreover have "o' = int (length p')"
    if "map_of (AList.update piece (occurences, prs) nd) i = Some (o', p')" for i o' p'
  proof (cases "i = piece")
    case True
    with that have "o' = occurences" and "p' = prs" by (simp_all add: update_conv')
    with assms(2) show ?thesis by simp
  next
    case False
    with that have "map_of nd i = Some (o', p')" by (simp add: update_conv')
    with assms(1) show ?thesis unfolding needed_wf_def by blast
  qed
  ultimately show ?thesis unfolding needed_wf_def by blast
qed

lemma needed_wf_remove_step:
  assumes "needed_wf nd" and "map_of nd piece = Some (occurences, prs)" and "peer \<in> set prs"
  shows "needed_wf (AList.update piece (occurences - 1, remove1 peer prs) nd)"
proof -
  from assms(1,2) have occ: "occurences = int (length prs)"
    unfolding needed_wf_def by blast
  from assms(3) obtain x xs where "prs = x # xs"
    by (cases prs) auto
  then have "int (length prs - 1) = int (length prs) - 1"
    by simp
  moreover have "length (remove1 peer prs) = length prs - 1"
    using assms(3) by (simp add: length_remove1)
  ultimately have "int (length (remove1 peer prs)) = int (length prs) - 1"
    by (simp only:)
  with occ have "occurences - 1 = int (length (remove1 peer prs))"
    by linarith
  with assms(1) show ?thesis by (rule needed_wf_update)
qed

lemma needed_wf_remove_peer_pieces:
  "needed_wf nd \<Longrightarrow> needed_wf (remove_peer_pieces peer pieces nd)"
proof (induction pieces arbitrary: nd)
  case Nil
  then show ?case by simp
next
  case (Cons piece pieces)
  show ?case
  proof (cases "map_of nd piece")
    case None
    with Cons show ?thesis by simp
  next
    case (Some v)
    obtain occurences prs where v: "v = (occurences, prs)" by (cases v) auto
    show ?thesis
    proof (cases "peer \<in> set prs")
      case True
      have "needed_wf (AList.update piece (occurences - 1, remove1 peer prs) nd)"
        using Cons.prems Some [unfolded v] True by (rule needed_wf_remove_step)
      with Cons Some v True show ?thesis by simp
    next
      case False
      with Cons Some v show ?thesis by simp
    qed
  qed
qed

lemma listed_remove_step:
  assumes "q \<noteq> peer" and "listed nd q bf"
    and "map_of nd piece = Some (occurences, prs)"
  shows "listed (AList.update piece (occurences - 1, remove1 peer prs) nd) q bf"
  unfolding listed_def
proof (intro allI impI)
  fix i o' p'
  assume h: "i < length bf \<and> bf ! i \<and>
    map_of (AList.update piece (occurences - 1, remove1 peer prs) nd) i = Some (o', p')"
  show "q \<in> set p'"
  proof (cases "i = piece")
    case True
    with h have p': "p' = remove1 peer prs" by (simp add: update_conv')
    from h True assms(2,3) have "q \<in> set prs" unfolding listed_def by blast
    with assms(1) p' show ?thesis by simp
  next
    case False
    with h have "map_of nd i = Some (o', p')" by (simp add: update_conv')
    with h assms(2) show ?thesis unfolding listed_def by blast
  qed
qed

lemma listed_remove_peer_pieces:
  "q \<noteq> peer \<Longrightarrow> listed nd q bf \<Longrightarrow> listed (remove_peer_pieces peer pieces nd) q bf"
proof (induction pieces arbitrary: nd)
  case Nil
  then show ?case by simp
next
  case (Cons piece pieces)
  show ?case
  proof (cases "map_of nd piece")
    case None
    with Cons show ?thesis by simp
  next
    case (Some v)
    obtain occurences prs where v: "v = (occurences, prs)" by (cases v) auto
    have "listed (AList.update piece (occurences - 1, remove1 peer prs) nd) q bf"
      using Cons.prems Some [unfolded v] by (rule listed_remove_step)
    with Cons Some v show ?thesis by simp
  qed
qed

lemma needed_wf_add_peer_piece:
  assumes "needed_wf nd"
  shows "needed_wf (add_peer_piece peer piece nd)"
proof (cases "map_of nd piece")
  case None
  with assms show ?thesis by (simp add: add_peer_piece_def)
next
  case (Some v)
  obtain occurences prs where v: "v = (occurences, prs)" by (cases v) auto
  from assms Some v have "occurences = int (length prs)"
    unfolding needed_wf_def by blast
  then have "occurences + 1 = int (length (prs @ [peer]))" by simp
  with assms have "needed_wf (AList.update piece (occurences + 1, prs @ [peer]) nd)"
    by (rule needed_wf_update)
  with assms Some v show ?thesis by (simp add: add_peer_piece_def)
qed

lemma needed_wf_add_peer_pieces:
  "needed_wf nd \<Longrightarrow> needed_wf (add_peer_pieces peer pieces nd)"
proof (induction pieces arbitrary: nd)
  case Nil
  then show ?case by simp
next
  case (Cons piece pieces)
  have "needed_wf (add_peer_piece peer piece nd)"
    using Cons.prems by (rule needed_wf_add_peer_piece)
  then have "needed_wf (add_peer_pieces peer pieces (add_peer_piece peer piece nd))"
    by (rule Cons.IH)
  then show ?case by simp
qed

lemma grown_add_peer_piece:
  assumes "map_of (add_peer_piece peer piece nd) i = Some (o', p')"
  shows "\<exists>occurences prs. map_of nd i = Some (occurences, prs) \<and> set prs \<subseteq> set p'"
proof (cases "map_of nd piece")
  case None
  with assms show ?thesis by (simp add: add_peer_piece_def)
next
  case (Some v)
  obtain occurences prs where v: "v = (occurences, prs)" by (cases v) auto
  show ?thesis
  proof (cases "peer \<notin> set prs \<and> i = piece")
    case True
    with assms Some v have "p' = prs @ [peer]"
      by (simp add: add_peer_piece_def update_conv')
    then have "set prs \<subseteq> set p'" by auto
    with Some v True show ?thesis by blast
  next
    case False
    with assms Some v have "map_of nd i = Some (o', p')"
      by (auto simp: add_peer_piece_def update_conv' split: if_splits)
    then show ?thesis by simp
  qed
qed

lemma listed_add_peer_piece:
  assumes "listed nd q bf"
  shows "listed (add_peer_piece peer piece nd) q bf"
  unfolding listed_def
proof (intro allI impI)
  fix i o' p'
  assume h: "i < length bf \<and> bf ! i \<and> map_of (add_peer_piece peer piece nd) i = Some (o', p')"
  then obtain occurences prs where "map_of nd i = Some (occurences, prs)" and "set prs \<subseteq> set p'"
    using grown_add_peer_piece by blast
  with h assms show "q \<in> set p'" unfolding listed_def by blast
qed

lemma listed_add_peer_pieces:
  "listed nd q bf \<Longrightarrow> listed (add_peer_pieces peer pieces nd) q bf"
proof (induction pieces arbitrary: nd)
  case Nil
  then show ?case by simp
next
  case (Cons piece pieces)
  have "listed (add_peer_piece peer piece nd) q bf"
    using Cons.prems by (rule listed_add_peer_piece)
  then have "listed (add_peer_pieces peer pieces (add_peer_piece peer piece nd)) q bf"
    by (rule Cons.IH)
  then show ?case by simp
qed

lemma added_add_peer_piece:
  assumes "map_of (add_peer_piece peer piece nd) piece = Some (occurences, prs)"
  shows "peer \<in> set prs"
proof (cases "map_of nd piece")
  case None
  with assms show ?thesis by (simp add: add_peer_piece_def)
next
  case (Some v)
  obtain o' p' where v: "v = (o', p')" by (cases v) auto
  show ?thesis
  proof (cases "peer \<in> set p'")
    case True
    with assms Some v show ?thesis by (simp add: add_peer_piece_def)
  next
    case False
    with assms Some v have "prs = p' @ [peer]"
      by (simp add: add_peer_piece_def update_conv')
    then show ?thesis by simp
  qed
qed

lemma kept_add_peer_piece:
  assumes "has_peer nd i peer"
  shows "has_peer (add_peer_piece peer piece nd) i peer"
  unfolding has_peer_def
proof (intro allI impI)
  fix o' p'
  assume "map_of (add_peer_piece peer piece nd) i = Some (o', p')"
  then obtain occurences prs where "map_of nd i = Some (occurences, prs)" and "set prs \<subseteq> set p'"
    using grown_add_peer_piece by blast
  with assms show "peer \<in> set p'" unfolding has_peer_def by blast
qed

lemma kept_add_peer_pieces:
  "has_peer nd i peer \<Longrightarrow> has_peer (add_peer_pieces peer pieces nd) i peer"
proof (induction pieces arbitrary: nd)
  case Nil
  then show ?case by simp
next
  case (Cons piece pieces)
  have "has_peer (add_peer_piece peer piece nd) i peer"
    using Cons.prems by (rule kept_add_peer_piece)
  then have "has_peer (add_peer_pieces peer pieces (add_peer_piece peer piece nd)) i peer"
    by (rule Cons.IH)
  then show ?case by simp
qed

lemma added_add_peer_pieces:
  "i \<in> set pieces \<Longrightarrow> has_peer (add_peer_pieces peer pieces nd) i peer"
proof (induction pieces arbitrary: nd)
  case Nil
  then show ?case by simp
next
  case (Cons piece pieces)
  show ?case
  proof (cases "i = piece")
    case True
    have "has_peer (add_peer_piece peer piece nd) i peer"
      unfolding has_peer_def True using added_add_peer_piece by blast
    then have "has_peer (add_peer_pieces peer pieces (add_peer_piece peer piece nd)) i peer"
      by (rule kept_add_peer_pieces)
    then show ?thesis by simp
  next
    case False
    with Cons.prems have "i \<in> set pieces" by simp
    then have "has_peer (add_peer_pieces peer pieces (add_peer_piece peer piece nd)) i peer"
      by (rule Cons.IH)
    then show ?thesis by simp
  qed
qed

lemma listed_bitfield:
  "listed (add_peer_pieces peer (findall True bf) nd) peer bf"
  unfolding listed_def
proof (intro allI impI)
  fix i occurences prs
  assume h: "i < length bf \<and> bf ! i \<and>
    map_of (add_peer_pieces peer (findall True bf) nd) i = Some (occurences, prs)"
  then have "i \<in> set (findall True bf)"
    by (simp add: set_findall)
  then have "has_peer (add_peer_pieces peer (findall True bf) nd) i peer"
    by (rule added_add_peer_pieces)
  with h show "peer \<in> set prs" unfolding has_peer_def by blast
qed

lemma avail_ok_iff:
  "avail_ok s \<longleftrightarrow>
     needed_wf (needed s) \<and>
     (\<forall>peer bf. map_of (bitfields s) peer = Some bf \<longrightarrow> bitfield_ok s peer bf)"
  unfolding avail_ok_alt bitfield_ok_def by (rule refl)

lemma avail_ok_update [simp]:
  "avail_ok (s\<lparr>completionDeferred := a\<rparr>) = avail_ok s"
  "avail_ok (s\<lparr>peers := b\<rparr>) = avail_ok s"
  "avail_ok (s\<lparr>have_bits := c\<rparr>) = avail_ok s"
  "avail_ok (s\<lparr>interested := d\<rparr>) = avail_ok s"
  "avail_ok (s\<lparr>requesting := e\<rparr>) = avail_ok s"
  "avail_ok (s\<lparr>partial := f\<rparr>) = avail_ok s"
  "avail_ok (s\<lparr>tick := g\<rparr>) = avail_ok s"
  "avail_ok (s\<lparr>pp_interested := h\<rparr>) = avail_ok s"
  "avail_ok (s\<lparr>pp_choked := i\<rparr>) = avail_ok s"
  "avail_ok (s\<lparr>sent := j\<rparr>) = avail_ok s"
  "avail_ok (s\<lparr>state := k\<rparr>) = avail_ok s"
  by (simp_all add: avail_ok_iff bitfield_ok_def)

lemma listed_zeros: "listed nd peer (replicate n False)"
  by (auto simp: listed_def)

lemma connect_avail_ok:
  assumes "avail_ok s" and "metainfo s = Some mi"
  shows "avail_ok (s\<lparr>bitfields := AList.update peer (replicate (num_pieces mi) False)
                                     (bitfields s)\<rparr>)"
  unfolding avail_ok_iff
proof (intro conjI allI impI)
  show "needed_wf (needed (s\<lparr>bitfields := AList.update peer (replicate (num_pieces mi) False)
                                     (bitfields s)\<rparr>))"
    using assms(1) by (simp add: avail_ok_iff)
next
  fix q bf
  assume h: "map_of (bitfields (s\<lparr>bitfields :=
      AList.update peer (replicate (num_pieces mi) False) (bitfields s)\<rparr>)) q = Some bf"
  show "bitfield_ok (s\<lparr>bitfields := AList.update peer (replicate (num_pieces mi) False)
                                     (bitfields s)\<rparr>) q bf"
  proof (cases "q = peer")
    case True
    with h have "bf = replicate (num_pieces mi) False"
      by (simp add: update_conv')
    then show ?thesis
      using assms(2) by (simp add: bitfield_ok_def listed_zeros)
  next
    case False
    with h have "map_of (bitfields s) q = Some bf"
      by (simp add: update_conv')
    with assms(1) have "bitfield_ok s q bf"
      unfolding avail_ok_iff by blast
    then show ?thesis by (simp add: bitfield_ok_def)
  qed
qed

lemma handle_addrs_avail_ok:
  "avail_ok s \<Longrightarrow> avail_ok (state_of (handle_addrs addrs s))"
proof (induction addrs arbitrary: s)
  case Nil
  then show ?case by simp
next
  case (Cons peer addrs)
  show ?case
  proof (cases "metainfo s")
    case None
    with Cons.prems show ?thesis by (simp add: with_metainfo_def)
  next
    case (Some mi)
    have "avail_ok (s\<lparr>bitfields := AList.update peer (replicate (num_pieces mi) False)
                                     (bitfields s)\<rparr>)"
      using Cons.prems Some by (rule connect_avail_ok)
    then have "avail_ok (s\<lparr>peers := peers s @ [peer],
            bitfields := AList.update peer (replicate (num_pieces mi) False) (bitfields s),
            pp_interested := pp_interested s - {peer},
            pp_choked := insert peer (pp_choked s)\<rparr>)"
      by (simp add: avail_ok_iff bitfield_ok_def)
    then have "avail_ok (state_of (handle_addrs addrs
         (s\<lparr>peers := peers s @ [peer],
            bitfields := AList.update peer (replicate (num_pieces mi) False) (bitfields s),
            pp_interested := pp_interested s - {peer},
            pp_choked := insert peer (pp_choked s)\<rparr>)))"
      by (rule Cons.IH)
    with Some show ?thesis by (simp add: with_metainfo_def)
  qed
qed

lemma disconnect_avail_ok:
  assumes "avail_ok s" and "map_of (bitfields s) peer = Some bf"
  shows "avail_ok (s\<lparr>needed := remove_peer_pieces peer (findall True bf) (needed s),
                     bitfields := AList.delete peer (bitfields s)\<rparr>)"
    (is "avail_ok ?s'")
  unfolding avail_ok_iff
proof (intro conjI allI impI)
  show "needed_wf (needed ?s')"
    using assms(1) by (simp add: avail_ok_iff needed_wf_remove_peer_pieces)
next
  fix q bf'
  assume h: "map_of (bitfields ?s') q = Some bf'"
  then have q: "q \<noteq> peer" and old: "map_of (bitfields s) q = Some bf'"
    by (auto simp: delete_conv' split: if_splits)
  from assms(1) old have "bitfield_ok s q bf'"
    unfolding avail_ok_iff by blast
  then have "listed (remove_peer_pieces peer (findall True bf) (needed s)) q bf'"
    using q by (simp add: bitfield_ok_def listed_remove_peer_pieces)
  with \<open>bitfield_ok s q bf'\<close> show "bitfield_ok ?s' q bf'"
    by (simp add: bitfield_ok_def)
qed

lemma release_avail_ok: "avail_ok s \<Longrightarrow> avail_ok (release peer s)"
  using release_avail [OF same_avail_refl] by (rule same_avail_ok)

lemma remove_peer_avail_ok:
  assumes "avail_ok s"
  shows "avail_ok (state_of (remove_peer peer s))"
proof (cases "peer \<in> set (peers s)")
  case False
  with assms show ?thesis by (simp add: remove_peer_def)
next
  case True
  show ?thesis
  proof (cases "map_of (bitfields s) peer")
    case None
    with assms True show ?thesis by (simp add: remove_peer_def Let_def)
  next
    case (Some bf)
    have "avail_ok (s\<lparr>needed := remove_peer_pieces peer (findall True bf) (needed s),
                     bitfields := AList.delete peer (bitfields s)\<rparr>)"
      using assms Some by (rule disconnect_avail_ok)
    then have "avail_ok (s\<lparr>peers := remove1 peer (peers s),
                     needed := remove_peer_pieces peer (findall True bf) (needed s),
                     bitfields := AList.delete peer (bitfields s)\<rparr>)"
      by (simp add: avail_ok_iff bitfield_ok_def)
    then have "avail_ok (release peer (s\<lparr>peers := remove1 peer (peers s),
                     needed := remove_peer_pieces peer (findall True bf) (needed s),
                     bitfields := AList.delete peer (bitfields s)\<rparr>))"
      by (rule release_avail_ok)
    with True Some show ?thesis by (simp add: remove_peer_def Let_def)
  qed
qed

lemma check_interest_avail_ok:
  "avail_ok s \<Longrightarrow> avail_ok (state_of (check_interest peer s))"
  using check_interest_avail [OF same_avail_refl] by (rule same_avail_ok)

lemma request_avail_ok: "avail_ok s \<Longrightarrow> avail_ok (state_of (request peer s))"
  using request_avail [OF same_avail_refl] by (rule same_avail_ok)

lemma connect_to_peers_avail_ok:
  "avail_ok s \<Longrightarrow> avail_ok (state_of (connect_to_peers n s))"
  using connect_to_peers_avail [OF same_avail_refl] by (rule same_avail_ok)

lemma completion_callback_avail_ok:
  "avail_ok s \<Longrightarrow> avail_ok (state_of (completion_callback s))"
  using completion_callback_avail [OF same_avail_refl] by (rule same_avail_ok)

lemma bitfield_avail_ok:
  assumes "avail_ok s" and "metainfo s = Some mi" and "length bf = num_pieces mi"
  shows "avail_ok (s\<lparr>bitfields := AList.update peer bf (bitfields s),
                     needed := add_peer_pieces peer (findall True bf) (needed s)\<rparr>)"
    (is "avail_ok ?s'")
  unfolding avail_ok_iff
proof (intro conjI allI impI)
  show "needed_wf (needed ?s')"
    using assms(1) by (simp add: avail_ok_iff needed_wf_add_peer_pieces)
next
  fix q bf'
  assume h: "map_of (bitfields ?s') q = Some bf'"
  show "bitfield_ok ?s' q bf'"
  proof (cases "q = peer")
    case True
    with h have "bf' = bf" by (simp add: update_conv')
    then show ?thesis
      using assms(2,3) True by (simp add: bitfield_ok_def listed_bitfield)
  next
    case False
    with h have "map_of (bitfields s) q = Some bf'"
      by (simp add: update_conv')
    with assms(1) have "bitfield_ok s q bf'"
      unfolding avail_ok_iff by blast
    then show ?thesis
      by (simp add: bitfield_ok_def listed_add_peer_pieces)
  qed
qed

lemma peer_bitfield_avail_ok:
  assumes "avail_ok s"
  shows "avail_ok (state_of (peer_bitfield peer bitfield s))"
proof (cases "metainfo s")
  case None
  with assms show ?thesis by (simp add: peer_bitfield_def with_metainfo_def)
next
  case (Some mi)
  show ?thesis
  proof (cases "length bitfield < num_pieces mi \<or>
      (length bitfield > num_pieces mi \<and> True \<in> set (drop (num_pieces mi) bitfield))")
    case True
    have "avail_ok (state_of (then_do
        (then_do (Returned (PeerProxy_drop_connection peer s)) (remove_peer peer))
        (connect_to_peers 1)))"
      using assms
      by (intro state_of_then_do [where P = avail_ok] remove_peer_avail_ok
          connect_to_peers_avail_ok) (simp add: PeerProxy_drop_connection_def)
    with Some True show ?thesis
      by (auto simp: peer_bitfield_def with_metainfo_def Let_def)
  next
    case False
    then have len: "length (take (num_pieces mi) bitfield) = num_pieces mi"
      by simp
    let ?bf = "take (num_pieces mi) bitfield"
    have "avail_ok (s\<lparr>bitfields := AList.update peer ?bf (bitfields s),
                     needed := add_peer_pieces peer (findall True ?bf) (needed s)\<rparr>)"
      using assms Some len by (rule bitfield_avail_ok)
    then have "avail_ok (state_of (check_interest peer
        (s\<lparr>bitfields := AList.update peer ?bf (bitfields s),
           needed := add_peer_pieces peer (findall True ?bf) (needed s)\<rparr>)))"
      by (rule check_interest_avail_ok)
    with Some False show ?thesis
      by (auto simp: peer_bitfield_def with_metainfo_def Let_def)
  qed
qed

lemma has_avail_ok:
  assumes "avail_ok s" and "map_of (bitfields s) peer = Some bf" and "index < length bf"
  shows "avail_ok (s\<lparr>bitfields := AList.update peer (bf[index := True]) (bitfields s),
                     needed := add_peer_piece peer index (needed s)\<rparr>)"
    (is "avail_ok ?s'")
  unfolding avail_ok_iff
proof (intro conjI allI impI)
  show "needed_wf (needed ?s')"
    using assms(1) by (simp add: avail_ok_iff needed_wf_add_peer_piece)
next
  fix q bf'
  assume h: "map_of (bitfields ?s') q = Some bf'"
  show "bitfield_ok ?s' q bf'"
  proof (cases "q = peer")
    case True
    with h have bf': "bf' = bf[index := True]" by (simp add: update_conv')
    from assms(1,2) have old: "bitfield_ok s peer bf"
      unfolding avail_ok_iff by blast
    have "listed (add_peer_piece peer index (needed s)) peer (bf[index := True])"
      unfolding listed_def
    proof (intro allI impI)
      fix i occurences prs
      assume a: "i < length (bf[index := True]) \<and> bf[index := True] ! i \<and>
        map_of (add_peer_piece peer index (needed s)) i = Some (occurences, prs)"
      show "peer \<in> set prs"
      proof (cases "i = index")
        case True
        with a show ?thesis using added_add_peer_piece by blast
      next
        case False
        with a have "i < length bf \<and> bf ! i" by simp
        moreover from old have "listed (add_peer_piece peer index (needed s)) peer bf"
          by (simp add: bitfield_ok_def listed_add_peer_piece)
        ultimately show ?thesis using a unfolding listed_def by blast
      qed
    qed
    with old bf' True show ?thesis
      by (auto simp: bitfield_ok_def split: option.splits)
  next
    case False
    with h have "map_of (bitfields s) q = Some bf'"
      by (simp add: update_conv')
    with assms(1) have "bitfield_ok s q bf'"
      unfolding avail_ok_iff by blast
    then show ?thesis
      by (simp add: bitfield_ok_def listed_add_peer_piece)
  qed
qed

lemma add_peer_piece_absent:
  "\<not> has_key index nd \<Longrightarrow> add_peer_piece peer index nd = nd"
  by (cases "map_of nd index") (auto simp: add_peer_piece_def has_key_def)

lemma peer_has_avail_ok:
  assumes "avail_ok s"
  shows "avail_ok (state_of (peer_has peer index s))"
proof (cases "metainfo s")
  case None
  with assms show ?thesis by (simp add: peer_has_def with_metainfo_def)
next
  case (Some mi)
  show ?thesis
  proof (cases "index < num_pieces mi")
    case False
    with assms Some show ?thesis by (simp add: peer_has_def with_metainfo_def)
  next
    case lt: True
    show ?thesis
    proof (cases "map_of (bitfields s) peer")
      case None
      with assms Some lt show ?thesis by (simp add: peer_has_def with_metainfo_def)
    next
      case bfs: (Some bf)
      show ?thesis
      proof (cases "index < length bf")
        case False
        with assms Some lt bfs show ?thesis by (simp add: peer_has_def with_metainfo_def)
      next
        case True
        let ?s' = "s\<lparr>bitfields := AList.update peer (bf[index := True]) (bitfields s),
                     needed := add_peer_piece peer index (needed s)\<rparr>"
        have ok: "avail_ok ?s'"
          using assms bfs True by (rule has_avail_ok)
        show ?thesis
        proof (cases "has_key index (needed s)")
          case False
          then have "?s' = s\<lparr>bitfields := AList.update peer (bf[index := True]) (bitfields s)\<rparr>"
            by (simp add: add_peer_piece_absent)
          with ok Some lt bfs True False show ?thesis
            by (simp add: peer_has_def with_metainfo_def Let_def)
        next
          case key: True
          have "avail_ok (state_of (check_interest peer ?s'))"
            using ok by (rule check_interest_avail_ok)
          with Some lt bfs True key show ?thesis
            by (simp add: peer_has_def with_metainfo_def Let_def)
        qed
      qed
    qed
  qed
qed

lemma needed_wf_delete: "needed_wf nd \<Longrightarrow> needed_wf (AList.delete index nd)"
  unfolding needed_wf_def
  by (auto simp: distinct_delete delete_conv' split: if_splits)

lemma listed_delete: "listed nd q bf \<Longrightarrow> listed (AList.delete index nd) q bf"
  unfolding listed_def
  by (auto simp: delete_conv' split: if_splits)

lemma delete_needed_avail_ok:
  assumes "avail_ok s"
  shows "avail_ok (s\<lparr>needed := AList.delete index (needed s)\<rparr>)"
  using assms unfolding avail_ok_iff bitfield_ok_def
  by (auto simp: needed_wf_delete listed_delete)

lemma piece_received_avail_ok:
  "avail_ok s \<Longrightarrow> avail_ok (state_of (piece_received index s))"
  by (simp add: piece_received_def Let_def delete_needed_avail_ok split: sum.splits)

lemma peer_sent_block_avail_ok:
  assumes "avail_ok s"
  shows "avail_ok (state_of (peer_sent_block digest peer index begin buf s))"
  unfolding peer_sent_block_def
  using assms
  by (auto split: option.splits
      simp: with_metainfo_def Let_def FileMgr_write_block_def request_avail_ok
        piece_received_avail_ok check_interest_avail_ok completion_callback_avail_ok
      intro!: state_of_then_do [where P = avail_ok])

lemma start_avail_ok: "avail_ok s \<Longrightarrow> avail_ok (state_of (start s))"
  by (simp add: start_def connect_to_peers_def)

lemma initialize_avail_ok:
  "avail_ok (success (snd (initialize (Loaded mi) hv s0)))" if "state s0 = Uninitialized"
  using that
  by (auto simp: initialize_def success_def avail_ok_iff needed_wf_def comp_def
      distinct_findall map_of_map_keys dest!: map_of_SomeD)

lemma handle_avail_ok:
  assumes "avail_ok s"
  shows "avail_ok (state_of (handle digest ev s))"
proof -
  have frame: "avail_ok s'" if "same_avail s s'" for s'
    using that assms by (rule same_avail_ok)
  show ?thesis
  proof (cases ev)
    case (HandleAddrs addrs)
    with assms show ?thesis by (simp add: handle_addrs_avail_ok)
  next
    case (PeerUnconnected peer)
    have "avail_ok (state_of (then_do (remove_peer peer s) (connect_to_peers 1)))"
      using assms
      by (intro state_of_then_do [where P = avail_ok] remove_peer_avail_ok
          connect_to_peers_avail_ok)
    with PeerUnconnected show ?thesis by (simp add: peer_unconnected_def)
  next
    case (PeerBitfield peer bitfield)
    with assms show ?thesis by (simp add: peer_bitfield_avail_ok)
  next
    case (PeerHas peer index)
    with assms show ?thesis by (simp add: peer_has_avail_ok)
  next
    case (PeerChoked peer)
    then show ?thesis by (simp add: frame peer_choked_avail same_avail_refl)
  next
    case (PeerUnchoked peer)
    then show ?thesis by (simp add: frame peer_unchoked_avail same_avail_refl)
  next
    case (PeerSentBlock peer index offs buf)
    with assms show ?thesis by (simp add: peer_sent_block_avail_ok)
  next
    case TimerEvent
    then show ?thesis by (simp add: frame timer_event_avail same_avail_refl)
  qed (simp_all add: assms peer_interested_def peer_not_interested_def peer_request_def
      peer_canceled_def)
qed

lemma reachable_avail: "reachable digest s \<Longrightarrow> avail_ok s"
  by (induction rule: reachable.induct)
    (simp_all add: initialize_avail_ok start_avail_ok handle_avail_ok)

lemma find_sorted_least:
  fixes x :: "'a :: linorder"
  shows "sorted xs \<Longrightarrow> find P xs = Some x \<Longrightarrow> y \<in> set xs \<Longrightarrow> P y \<Longrightarrow> x \<le> y"
proof (induction xs)
  case Nil
  then show ?case by simp
next
  case (Cons a xs)
  show ?case
  proof (cases "P a")
    case True
    with Cons.prems have "x = a" by simp
    with Cons.prems show ?thesis by auto
  next
    case False
    with Cons.prems have "find P xs = Some x" and "y \<in> set xs" and "sorted xs"
      by auto
    then show ?thesis using Cons.IH Cons.prems(4) by blast
  qed
qed

lemma set_of_interest:
  assumes "length a = length b"
  shows "set (findall True (bit_and (invert a) b)) = {i. i < length b \<and> \<not> a ! i \<and> b ! i}"
  using assms by (auto simp: set_findall bit_and_def invert_def)

lemma sorted_rarest: "sorted (rarest s)"
  by (simp add: rarest_def)

lemma rarest_iff:
  "(occurences, prs, index) \<in> set (rarest s) \<longleftrightarrow>
   (index, (occurences, prs)) \<in> set (needed s) \<and> occurences \<noteq> 0"
  by (auto simp: rarest_def intro: rev_image_eqI)

lemma reserved_piece_update [simp]:
  "reserved_piece (s\<lparr>sent := a\<rparr>) = reserved_piece s"
  "reserved_piece (s\<lparr>pp_interested := b\<rparr>) = reserved_piece s"
  "reserved_piece (s\<lparr>partial := c\<rparr>) = reserved_piece s"
  by (simp_all add: reserved_piece_def fun_eq_iff cong: option.case_cong)

lemma reserved_piece_interested:
  "map_of (interested s) peer = Some (index, offset, sha1, t) \<Longrightarrow>
   reserved_piece s peer = Some index"
  by (simp add: reserved_piece_def)

lemma request_reserved:
  assumes "map_of (interested s) peer = Some (index, offset, sha1, t)"
  shows "reserved_piece (state_of (request peer s)) peer = Some index"
proof -
  let ?s1 = "s\<lparr>interested := AList.delete peer (interested s),
               requesting := AList.update peer (index, offset, sha1, tick s, 0) (requesting s)\<rparr>"
  have r: "reserved_piece ?s1 peer = Some index"
    by (simp add: reserved_piece_def delete_conv' update_conv')
  have "state_of (request peer s) = ?s1 \<or>
        state_of (request peer s) =
          PeerProxy_request peer index offset (bytes_to_request (the (metainfo s)) index offset) ?s1"
    using assms
    by (auto simp: request_def Let_def with_metainfo_def update_conv' split: option.splits)
  with r show ?thesis
    by (auto simp: PeerProxy_request_def)
qed

lemma show_interest_reserved:
  assumes "map_of (interested s) peer = Some (index, offset, sha1, t)"
  shows "reserved_piece (state_of (show_interest peer s)) peer = Some index"
proof -
  let ?s1 = "if \<not> PeerProxy_is_interested peer s then PeerProxy_interested peer s else s"
  have i1: "map_of (interested ?s1) peer = Some (index, offset, sha1, t)"
    using assms by (simp add: PeerProxy_interested_def)
  show ?thesis
  proof (cases "PeerProxy_is_peer_choked peer ?s1")
    case True
    then have "state_of (show_interest peer s) = ?s1"
      by (simp add: show_interest_def Let_def)
    with i1 show ?thesis
      by (simp only: reserved_piece_interested)
  next
    case False
    then have "state_of (show_interest peer s) = state_of (request peer ?s1)"
      by (simp add: show_interest_def Let_def)
    with i1 show ?thesis
      by (simp only: request_reserved)
  qed
qed

lemma needed_lookup:
  "avail_ok s \<Longrightarrow> (i, (occurences, prs)) \<in> set (needed s) \<Longrightarrow>
   map_of (needed s) i = Some (occurences, prs)"
  by (simp add: avail_ok_def)

lemma rarity_lookup:
  "map_of (needed s) i = Some (occurences, prs) \<Longrightarrow> rarity s i = occurences"
  by (simp add: rarity_def)

lemma set_dont_consider:
  "set (dont_consider s) =
     (\<lambda>(p, j, offset, sha1, t). j) ` set (interested s)
     \<union> (\<lambda>(p, j, offset, sha1, t, n). j) ` set (requesting s)"
  by (force simp: dont_consider_def image_iff)

lemma candidates_dont_consider:
  "candidates s peer =
     {i \<in> fst ` set (needed s). advertises s peer i \<and> i \<notin> set (dont_consider s)}"
  unfolding candidates_def set_dont_consider by (auto simp: image_iff)

lemma check_interest_rarest:
  assumes p: "partition_ok s" and a: "avail_ok s"
    and free: "\<not> has_key peer (interested s)" "\<not> has_key peer (requesting s)"
    and nopartial: "\<forall>(i, offset, sha1) \<in> set (partial s).
                     \<not> (advertises s peer i \<and> has_key i (needed s))"
    and res: "reserved_piece (state_of (check_interest peer s)) peer = Some index"
  shows "index \<in> candidates s peer \<and> (\<forall>j \<in> candidates s peer. rarity s index \<le> rarity s j)"
proof -
  from free have none: "reserved_piece s peer = None"
    by (auto simp: reserved_piece_def has_key_def split: option.splits)
  show ?thesis
  proof (cases "map_of (bitfields s) peer")
    case None
    with free res none show ?thesis by (simp add: check_interest_def)
  next
    case (Some bf)
    from p obtain mi where mi: "metainfo s = Some mi"
      and hlen: "length (have_bits s) = num_pieces mi"
      and keys: "fst ` set (needed s) = set (findall False (have_bits s))"
      by (auto simp: partition_ok_def split: option.splits)
    from a Some mi have len: "length (have_bits s) = length bf"
      by (auto simp: avail_ok_def hlen)
    define of_interest where "of_interest = findall True (bit_and (invert (have_bits s)) bf)"
    have oi: "set of_interest = {i. i < length bf \<and> \<not> have_bits s ! i \<and> bf ! i}"
      unfolding of_interest_def using len by (rule set_of_interest)
    have oi_iff: "i \<in> set of_interest \<longleftrightarrow> advertises s peer i \<and> has_key i (needed s)" for i
      using Some len by (auto simp: oi advertises_def has_key_iff keys set_findall)
    define resumed where "resumed =
      (if length of_interest > 0
       then find (\<lambda>(index, offset, sha1). index \<in> set of_interest) (partial s) else None)"
    define fresh where "fresh =
      (if length of_interest > 0
       then find (\<lambda>(_, _, index). index \<in> set of_interest \<and> index \<notin> set (dont_consider s))
              (rarest s)
       else None)"
    have unfold: "check_interest peer s =
      (case resumed of
         Some (index, offset, sha1) \<Rightarrow>
           show_interest peer
             (s\<lparr>partial := remove1 (index, offset, sha1) (partial s),
                interested :=
                  AList.update peer (index, offset, sha1, tick s) (interested s)\<rparr>)
       | None \<Rightarrow>
           (case fresh of
              Some (_, _, index) \<Rightarrow>
                show_interest peer
                  (s\<lparr>interested :=
                       AList.update peer (index, 0, [], tick s) (interested s)\<rparr>)
            | None \<Rightarrow>
                if \<not> has_key peer (interested s) \<and> PeerProxy_is_interested peer s
                then connect_to_peers 1 (PeerProxy_not_interested peer s)
                else Returned s))"
      unfolding check_interest_def Let_def of_interest_def resumed_def fresh_def
      using free Some len by (simp cong: option.case_cong)
    have "resumed = None"
    proof (cases resumed)
      case None
      then show ?thesis .
    next
      case (Some e)
      obtain i offset sha1 where e: "e = (i, offset, sha1)" by (cases e) auto
      from Some e have "(i, offset, sha1) \<in> set (partial s)" and "i \<in> set of_interest"
        by (auto simp: resumed_def dest!: find_SomeD split: if_splits)
      with nopartial oi_iff show ?thesis by blast
    qed
    show ?thesis
    proof (cases fresh)
      case None
      with \<open>resumed = None\<close> have "reserved_piece (state_of (check_interest peer s)) peer =
          reserved_piece s peer"
        by (simp add: unfold connect_to_peers_def PeerProxy_not_interested_def)
      with res none show ?thesis by simp
    next
      case (Some f)
      obtain occurences prs idx where f: "f = (occurences, prs, idx)" by (cases f) auto
      have "map_of (interested (s\<lparr>interested :=
              AList.update peer (idx, 0, [], tick s) (interested s)\<rparr>)) peer =
            Some (idx, 0, [], tick s)"
        by (simp add: update_conv')
      then have "reserved_piece (state_of (show_interest peer (s\<lparr>interested :=
              AList.update peer (idx, 0, [], tick s) (interested s)\<rparr>))) peer = Some idx"
        by (rule show_interest_reserved)
      with \<open>resumed = None\<close> Some f res have idx: "idx = index"
        by (simp add: unfold)
      from Some f have nonempty: "length of_interest > 0"
        and found: "find (\<lambda>(_, _, index). index \<in> set of_interest \<and>
                                          index \<notin> set (dont_consider s)) (rarest s)
                    = Some (occurences, prs, idx)"
        by (auto simp: fresh_def split: if_splits)
      from found have inr: "(occurences, prs, idx) \<in> set (rarest s)"
        and ioi: "idx \<in> set of_interest" and idc: "idx \<notin> set (dont_consider s)"
        by (auto dest!: find_SomeD)
      from inr have inn: "(idx, (occurences, prs)) \<in> set (needed s)"
        by (simp add: rarest_iff)
      then have key: "idx \<in> fst ` set (needed s)"
        by (auto intro: rev_image_eqI)
      from ioi oi_iff have "advertises s peer idx" by simp
      with key idc have cand: "idx \<in> candidates s peer"
        by (simp add: candidates_dont_consider)
      have rar: "rarity s idx = occurences"
        using needed_lookup [OF a inn] by (rule rarity_lookup)
      have least: "rarity s idx \<le> rarity s j" if j: "j \<in> candidates s peer" for j
      proof -
        from j have jkey: "j \<in> fst ` set (needed s)" and jadv: "advertises s peer j"
          and jdc: "j \<notin> set (dont_consider s)"
          by (simp_all add: candidates_dont_consider)
        from jkey obtain oj pj where jn: "(j, (oj, pj)) \<in> set (needed s)"
          by auto
        with a have jl: "map_of (needed s) j = Some (oj, pj)"
          by (rule needed_lookup)
        from jadv \<open>map_of (bitfields s) peer = Some bf\<close> have jbit: "j < length bf \<and> bf ! j"
          by (simp add: advertises_def)
        with a jl \<open>map_of (bitfields s) peer = Some bf\<close> have "peer \<in> set pj"
          unfolding avail_ok_def by blast
        moreover from a jl have "oj = int (length pj)"
          unfolding avail_ok_def by blast
        ultimately have "oj \<noteq> 0"
          by (cases pj) auto
        with jn have "(oj, pj, j) \<in> set (rarest s)"
          by (simp add: rarest_iff)
        moreover from jadv jkey oi_iff have "j \<in> set of_interest"
          by (simp add: has_key_iff)
        ultimately have "(occurences, prs, idx) \<le> (oj, pj, j)"
          using find_sorted_least [OF sorted_rarest found, of "(oj, pj, j)"] jdc
          by simp
        then have "occurences \<le> oj"
          by (auto simp: less_eq_prod_def)
        with rar jl show ?thesis
          by (simp add: rarity_def)
      qed
      from cand least idx show ?thesis by blast
    qed
  qed
qed

lemma disjoint_ok_update [simp]:
  "disjoint_ok (s\<lparr>completionDeferred := a\<rparr>) = disjoint_ok s"
  "disjoint_ok (s\<lparr>peers := b\<rparr>) = disjoint_ok s"
  "disjoint_ok (s\<lparr>bitfields := c\<rparr>) = disjoint_ok s"
  "disjoint_ok (s\<lparr>have_bits := d\<rparr>) = disjoint_ok s"
  "disjoint_ok (s\<lparr>needed := e\<rparr>) = disjoint_ok s"
  "disjoint_ok (s\<lparr>partial := f\<rparr>) = disjoint_ok s"
  "disjoint_ok (s\<lparr>tick := g\<rparr>) = disjoint_ok s"
  "disjoint_ok (s\<lparr>pp_interested := h\<rparr>) = disjoint_ok s"
  "disjoint_ok (s\<lparr>pp_choked := i\<rparr>) = disjoint_ok s"
  "disjoint_ok (s\<lparr>sent := j\<rparr>) = disjoint_ok s"
  "disjoint_ok (s\<lparr>state := k\<rparr>) = disjoint_ok s"
  by (simp_all add: disjoint_ok_def)

lemma PeerProxy_disjoint [simp]:
  "disjoint_ok (PeerProxy_interested peer s) = disjoint_ok s"
  "disjoint_ok (PeerProxy_not_interested peer s) = disjoint_ok s"
  "disjoint_ok (PeerProxy_request peer index offset len s) = disjoint_ok s"
  "disjoint_ok (PeerProxy_drop_connection peer s) = disjoint_ok s"
  "disjoint_ok (FileMgr_write_block index offset buf s) = disjoint_ok s"
  by (simp_all add: PeerProxy_interested_def PeerProxy_not_interested_def
      PeerProxy_request_def PeerProxy_drop_connection_def FileMgr_write_block_def)

lemma disjoint_delete_interested:
  "disjoint_ok s \<Longrightarrow> disjoint_ok (s\<lparr>interested := AList.delete peer (interested s)\<rparr>)"
  by (auto simp: disjoint_ok_def keys_delete)

lemma disjoint_delete_requesting:
  "disjoint_ok s \<Longrightarrow> disjoint_ok (s\<lparr>requesting := AList.delete peer (requesting s)\<rparr>)"
  by (auto simp: disjoint_ok_def keys_delete)

lemma disjoint_update_requesting:
  "disjoint_ok s \<Longrightarrow> \<not> has_key peer (interested s) \<Longrightarrow>
   disjoint_ok (s\<lparr>requesting := AList.update peer v (requesting s)\<rparr>)"
  by (auto simp: disjoint_ok_def dom_update has_key_iff)

lemma disjoint_update_interested:
  "disjoint_ok s \<Longrightarrow> \<not> has_key peer (requesting s) \<Longrightarrow>
   disjoint_ok (s\<lparr>interested := AList.update peer v (interested s)\<rparr>)"
  by (auto simp: disjoint_ok_def dom_update has_key_iff)

lemma disjoint_move:
  "disjoint_ok (s\<lparr>interested := AList.delete peer (interested s)\<rparr>) \<Longrightarrow>
   disjoint_ok (s\<lparr>interested := AList.delete peer (interested s),
                 requesting := AList.update peer v (requesting s)\<rparr>)"
  by (auto simp: disjoint_ok_def dom_update keys_delete)

lemma connect_to_peers_disjoint:
  "disjoint_ok s \<Longrightarrow> disjoint_ok (state_of (connect_to_peers n s))"
  by (simp add: connect_to_peers_def)

lemma completion_callback_disjoint:
  "disjoint_ok s \<Longrightarrow> disjoint_ok (state_of (completion_callback s))"
  by (simp add: completion_callback_def split: option.splits bool.splits)

lemma handle_addrs_disjoint:
  "disjoint_ok s \<Longrightarrow> disjoint_ok (state_of (handle_addrs addrs s))"
  by (induction addrs arbitrary: s) (auto simp: with_metainfo_def split: option.splits)

lemma release_disjoint: "disjoint_ok s \<Longrightarrow> disjoint_ok (release peer s)"
  by (auto simp: release_def disjoint_ok_def keys_delete split: option.splits)

lemma remove_peer_disjoint:
  "disjoint_ok s \<Longrightarrow> disjoint_ok (state_of (remove_peer peer s))"
  by (simp add: remove_peer_def Let_def release_disjoint split: option.splits)

text \<open>For \<^verbatim>\<open>_request\<close> it is enough that the other peers are in one dictionary only.\<close>

lemma request_disjoint_weak:
  assumes "disjoint_ok (s\<lparr>interested := AList.delete peer (interested s)\<rparr>)"
  shows "disjoint_ok (state_of (request peer s))"
proof (cases "map_of (interested s) peer")
  case None
  then have "AList.delete peer (interested s) = interested s"
    by (simp add: map_of_eq_None_iff)
  with assms have "disjoint_ok s" by simp
  with None show ?thesis
    by (simp add: request_def Let_def with_metainfo_def split: option.splits)
next
  case (Some r)
  obtain index offset sha1 t where r: "r = (index, offset, sha1, t)"
    by (cases r) auto
  have "disjoint_ok (s\<lparr>interested := AList.delete peer (interested s),
                 requesting := AList.update peer (index, offset, sha1, tick s, 0)
                                 (requesting s)\<rparr>)"
    using assms by (rule disjoint_move)
  with Some r show ?thesis
    by (simp add: request_def Let_def with_metainfo_def split: option.splits)
qed

lemma request_disjoint: "disjoint_ok s \<Longrightarrow> disjoint_ok (state_of (request peer s))"
  by (intro request_disjoint_weak disjoint_delete_interested)

lemma show_interest_disjoint:
  "disjoint_ok s \<Longrightarrow> disjoint_ok (state_of (show_interest peer s))"
  by (simp add: show_interest_def Let_def request_disjoint)

lemma disjoint_resume:
  "disjoint_ok s \<Longrightarrow> \<not> has_key peer (requesting s) \<Longrightarrow>
   disjoint_ok (s\<lparr>partial := p, interested := AList.update peer v (interested s)\<rparr>)"
  by (auto simp: disjoint_ok_def dom_update has_key_iff)

lemma check_interest_disjoint:
  assumes "disjoint_ok s"
  shows "disjoint_ok (state_of (check_interest peer s))"
proof (cases "\<not> has_key peer (interested s) \<and> \<not> has_key peer (requesting s)")
  case False
  with assms show ?thesis by (auto simp: check_interest_def)
next
  case True
  then have nr: "\<not> has_key peer (requesting s)" by simp
  have a: "disjoint_ok (state_of (show_interest peer
      (s\<lparr>partial := p, interested := AList.update peer v (interested s)\<rparr>)))" for p v
    using assms nr by (intro show_interest_disjoint disjoint_resume)
  have b: "disjoint_ok (state_of (show_interest peer
      (s\<lparr>interested := AList.update peer v (interested s)\<rparr>)))" for v
    using assms nr by (intro show_interest_disjoint disjoint_update_interested)
  have c: "disjoint_ok (state_of (connect_to_peers n (PeerProxy_not_interested peer s)))" for n
    using assms by (simp add: connect_to_peers_def)
  show ?thesis
    using assms
    by (auto simp: check_interest_def Let_def a b c split: option.splits)
qed

lemma peer_unchoked_disjoint:
  "disjoint_ok s \<Longrightarrow> disjoint_ok (state_of (peer_unchoked peer s))"
  by (simp add: peer_unchoked_def request_disjoint)

lemma peer_bitfield_disjoint:
  "disjoint_ok s \<Longrightarrow> disjoint_ok (state_of (peer_bitfield peer bitfield s))"
  unfolding peer_bitfield_def Let_def
  by (auto simp: with_metainfo_def check_interest_disjoint remove_peer_disjoint
      connect_to_peers_disjoint split: option.splits
      intro!: state_of_then_do [where P = disjoint_ok])

lemma peer_has_disjoint:
  "disjoint_ok s \<Longrightarrow> disjoint_ok (state_of (peer_has peer index s))"
  unfolding peer_has_def Let_def
  by (auto simp: with_metainfo_def check_interest_disjoint split: option.splits)

lemma piece_received_disjoint:
  "disjoint_ok s \<Longrightarrow> disjoint_ok (state_of (piece_received index s))"
  by (simp add: piece_received_def Let_def split: sum.splits)

lemma progress_disjoint:
  assumes "disjoint_ok s" and "map_of (requesting s) peer = Some r"
  shows "disjoint_ok (s\<lparr>requesting := AList.update peer v (requesting s)\<rparr>)"
proof -
  from assms(2) have "peer \<in> fst ` set (requesting s)"
    by (auto dest!: map_of_SomeD intro: rev_image_eqI)
  with assms(1) have "\<not> has_key peer (interested s)"
    by (auto simp: disjoint_ok_def has_key_iff)
  with assms(1) show ?thesis by (rule disjoint_update_requesting)
qed

lemma disjoint_spill:
  "disjoint_ok s \<Longrightarrow>
   disjoint_ok (s\<lparr>partial := p, requesting := AList.delete peer (requesting s)\<rparr>)"
  by (auto simp: disjoint_ok_def keys_delete)

lemma peer_sent_block_disjoint:
  assumes "disjoint_ok s"
  shows "disjoint_ok (state_of (peer_sent_block digest peer index begin buf s))"
proof (cases "map_of (requesting s) peer")
  case None
  with assms show ?thesis by (simp add: peer_sent_block_def)
next
  case (Some r)
  obtain piece received_bytes sha1 t n where r: "r = (piece, received_bytes, sha1, t, n)"
    by (metis prod_cases5)
  from Some have "peer \<in> fst ` set (requesting s)"
    by (auto dest!: map_of_SomeD intro: rev_image_eqI)
  with assms have upd:
    "disjoint_ok (s\<lparr>sent := x, requesting := AList.update peer v (requesting s)\<rparr>)" for x v
    by (auto simp: disjoint_ok_def dom_update)
  from assms have del:
    "disjoint_ok (s\<lparr>sent := x, requesting :=
        AList.delete peer (AList.update peer v (requesting s))\<rparr>)" for x v
    by (auto simp: disjoint_ok_def dom_update keys_delete)
  show ?thesis
    unfolding peer_sent_block_def
    using assms Some r
    by (auto split: option.splits
        simp: with_metainfo_def Let_def FileMgr_write_block_def request_disjoint upd del
          piece_received_disjoint check_interest_disjoint completion_callback_disjoint
          disjoint_delete_requesting
        intro!: state_of_then_do [where P = disjoint_ok])
qed

lemma stale_interest_disjoint:
  "disjoint_ok s \<Longrightarrow> disjoint_ok (state_of (stale_interest items s))"
proof (induction items arbitrary: s)
  case Nil
  then show ?case by simp
next
  case (Cons item items)
  obtain peer index offset sha1 tick0 where item: "item = (peer, (index, offset, sha1, tick0))"
    by (metis prod_cases4)
  show ?case
    unfolding item stale_interest.simps Let_def
    using Cons.prems
    by (auto intro!: state_of_then_do [where P = disjoint_ok] Cons.IH
        simp: connect_to_peers_def disjoint_delete_interested)
qed

lemma stale_request_disjoint:
  "disjoint_ok s \<Longrightarrow> disjoint_ok (state_of (stale_request items s))"
proof (induction items arbitrary: s)
  case Nil
  then show ?case by simp
next
  case (Cons item items)
  obtain peer index offset sha1 tick0 retries
    where item: "item = (peer, (index, offset, sha1, tick0, retries))"
    by (metis prod_cases5)
  have retry: "disjoint_ok (state_of (request peer
      (s\<lparr>requesting := AList.update peer v (requesting s)\<rparr>)))" for v
  proof (rule request_disjoint_weak)
    have "disjoint_ok (s\<lparr>interested := AList.delete peer (interested s)\<rparr>)"
      using Cons.prems by (rule disjoint_delete_interested)
    then have "disjoint_ok (s\<lparr>interested := AList.delete peer (interested s),
                 requesting := AList.update peer v (requesting s)\<rparr>)"
      by (rule disjoint_move)
    then show "disjoint_ok
     (s\<lparr>requesting := AList.update peer v (requesting s),
          interested :=
            AList.delete peer
             (interested (s\<lparr>requesting := AList.update peer v (requesting s)\<rparr>))\<rparr>)"
      by (simp add: disjoint_ok_def)
  qed
  show ?case
    unfolding item stale_request.simps Let_def
    using Cons.prems
    by (auto intro!: state_of_then_do [where P = disjoint_ok] Cons.IH retry
        simp: connect_to_peers_def disjoint_spill)
qed

lemma timer_event_disjoint:
  "disjoint_ok s \<Longrightarrow> disjoint_ok (state_of (timer_event s))"
  unfolding timer_event_def Let_def
  by (auto intro!: state_of_then_do [where P = disjoint_ok] stale_interest_disjoint
      stale_request_disjoint)

lemma handle_disjoint:
  assumes "disjoint_ok s"
  shows "disjoint_ok (state_of (handle digest ev s))"
proof (cases ev)
  case (PeerUnconnected peer)
  have "disjoint_ok (state_of (then_do (remove_peer peer s) (connect_to_peers 1)))"
    using assms
    by (intro state_of_then_do [where P = disjoint_ok] remove_peer_disjoint
        connect_to_peers_disjoint)
  with PeerUnconnected show ?thesis by (simp add: peer_unconnected_def)
qed (simp_all add: assms handle_addrs_disjoint peer_bitfield_disjoint peer_has_disjoint
    peer_choked_def release_disjoint peer_unchoked_disjoint peer_sent_block_disjoint
    timer_event_disjoint peer_interested_def peer_not_interested_def peer_request_def
    peer_canceled_def)

lemma reachable_disjoint: "reachable digest s \<Longrightarrow> disjoint_ok s"
proof (induction rule: reachable.induct)
  case (reach_initialize s0 hv mi)
  then show ?case
    by (simp add: initialize_def success_def disjoint_ok_def)
next
  case (reach_start s)
  then show ?case by (simp add: start_def connect_to_peers_def)
next
  case (reach_event s ev)
  then show ?case by (simp add: handle_disjoint)
qed

lemma request_plain:
  assumes "\<not> has_key peer (interested s)"
    and "map_of (requesting s) peer = Some (index, offset, sha1, t, n)"
    and "metainfo s = Some mi"
  shows "request peer s =
         Returned (PeerProxy_request peer index offset (bytes_to_request mi index offset) s)"
proof -
  from assms(1) have "map_of (interested s) peer = None"
    by (cases "map_of (interested s) peer") (auto simp: has_key_def)
  with assms(2,3) show ?thesis
    by (simp add: request_def Let_def with_metainfo_def)
qed

lemma stale_request_step:
  assumes cur: "map_of (requesting s) peer = Some (index, offset, sha1, tick0, retries)"
    and free: "\<not> has_key peer (interested s)"
    and mi: "metainfo s = Some mi"
  shows "stale_request ((peer, (index, offset, sha1, tick0, retries)) # items) s =
         stale_request items
           (request_sweep mi (peer, (index, offset, sha1, tick0, retries)) s)"
proof (cases "tick0 + 5 = tick s")
  case False
  then show ?thesis by (simp add: request_sweep_def)
next
  case stale: True
  show ?thesis
  proof (cases "retries < MAX_RETRIES")
    case True
    let ?s1 = "s\<lparr>requesting :=
                 AList.update peer (index, offset, sha1, tick s, retries + 1) (requesting s)\<rparr>"
    have "request peer ?s1 =
      Returned (PeerProxy_request peer index offset (bytes_to_request mi index offset) ?s1)"
      using free mi by (intro request_plain) (simp_all add: update_conv')
    with stale True show ?thesis
      by (simp add: request_sweep_def PeerProxy_request_def)
  next
    case False
    have "has_key peer (requesting (s\<lparr>partial := partial s @ [(index, offset, sha1)]\<rparr>))"
      using cur by (simp add: has_key_def)
    with stale False show ?thesis
      by (simp add: request_sweep_def Let_def connect_to_peers_def
          PeerProxy_not_interested_def)
  qed
qed

lemma request_sweep_frame:
  "tick (request_sweep mi item s) = tick s"
  "metainfo (request_sweep mi item s) = metainfo s"
  "interested (request_sweep mi item s) = interested s"
  by (simp_all add: request_sweep_def split: prod.splits)

lemma request_sweep_other:
  "q \<noteq> fst item \<Longrightarrow>
   map_of (requesting (request_sweep mi item s)) q = map_of (requesting s) q"
  by (auto simp: request_sweep_def update_conv' delete_conv' split: prod.splits)

lemma stale_request_sweeps:
  assumes "snapshot_ok items s" and "metainfo s = Some mi"
    and "\<forall>x \<in> set items. \<not> has_key (fst x) (interested s)"
  shows "stale_request items s = Returned (foldl (\<lambda>s x. request_sweep mi x s) s items)"
  using assms
proof (induction items arbitrary: s)
  case Nil
  then show ?case by simp
next
  case (Cons item items)
  obtain peer index offset sha1 tick0 retries
    where item: "item = (peer, (index, offset, sha1, tick0, retries))"
    by (metis prod_cases5)
  let ?s' = "request_sweep mi item s"
  from Cons.prems(1) have cur: "map_of (requesting s) peer = Some (index, offset, sha1, tick0, retries)"
    and notin: "peer \<notin> fst ` set items" and rest: "snapshot_ok items s"
    by (auto simp: snapshot_ok_def item)
  from Cons.prems(3) have free: "\<not> has_key peer (interested s)"
    by (simp add: item)
  have step: "stale_request (item # items) s = stale_request items ?s'"
    unfolding item using cur free Cons.prems(2) by (rule stale_request_step)
  have "map_of (requesting ?s') (fst x) = Some (snd x)" if "x \<in> set items" for x
  proof -
    from that notin have "fst x \<noteq> fst item" by (auto simp: item)
    then have "map_of (requesting ?s') (fst x) = map_of (requesting s) (fst x)"
      by (rule request_sweep_other)
    with rest that show ?thesis by (simp add: snapshot_ok_def)
  qed
  with rest have "snapshot_ok items ?s'"
    by (simp add: snapshot_ok_def)
  moreover have "metainfo ?s' = Some mi"
    using Cons.prems(2) by (simp add: request_sweep_frame)
  moreover have "\<forall>x \<in> set items. \<not> has_key (fst x) (interested ?s')"
    using Cons.prems(3) by (simp add: request_sweep_frame)
  ultimately have "stale_request items ?s' =
      Returned (foldl (\<lambda>s x. request_sweep mi x s) ?s' items)"
    by (rule Cons.IH)
  with step show ?case by simp
qed

lemma stale_interest_step:
  assumes "has_key peer (interested s)"
  shows "stale_interest ((peer, (index, offset, sha1, tick0)) # items) s =
         stale_interest items (interest_sweep (peer, (index, offset, sha1, tick0)) s)"
  using assms
  by (simp add: interest_sweep_def Let_def connect_to_peers_def PeerProxy_not_interested_def)

lemma stale_interest_sweeps:
  assumes "distinct (map fst items)" and "\<forall>x \<in> set items. has_key (fst x) (interested s)"
  shows "stale_interest items s = Returned (foldl (\<lambda>s x. interest_sweep x s) s items)"
  using assms
proof (induction items arbitrary: s)
  case Nil
  then show ?case by simp
next
  case (Cons item items)
  obtain peer index offset sha1 tick0 where item: "item = (peer, (index, offset, sha1, tick0))"
    by (metis prod_cases4)
  let ?s' = "interest_sweep item s"
  from Cons.prems have key: "has_key peer (interested s)" and notin: "peer \<notin> fst ` set items"
    and d: "distinct (map fst items)"
    by (auto simp: item)
  have step: "stale_interest (item # items) s = stale_interest items ?s'"
    unfolding item using key by (rule stale_interest_step)
  have "has_key (fst x) (interested ?s')" if "x \<in> set items" for x
  proof -
    from that notin have "fst x \<noteq> peer" by auto
    moreover from that Cons.prems(2) have "has_key (fst x) (interested s)" by simp
    ultimately show ?thesis
      by (simp add: interest_sweep_def item has_key_def delete_conv')
  qed
  then have "\<forall>x \<in> set items. has_key (fst x) (interested ?s')" by blast
  with d have "stale_interest items ?s' = Returned (foldl (\<lambda>s x. interest_sweep x s) ?s' items)"
    by (rule Cons.IH)
  with step show ?case by simp
qed

lemma interest_sweeps_frame:
  "tick (foldl (\<lambda>s x. interest_sweep x s) s items) = tick s"
  "metainfo (foldl (\<lambda>s x. interest_sweep x s) s items) = metainfo s"
  "requesting (foldl (\<lambda>s x. interest_sweep x s) s items) = requesting s"
  "partial (foldl (\<lambda>s x. interest_sweep x s) s items) = partial s"
  by (induction items arbitrary: s) (simp_all add: interest_sweep_def split: prod.splits)

lemma interest_sweeps_keys:
  "fst ` set (interested (foldl (\<lambda>s x. interest_sweep x s) s items)) \<subseteq> fst ` set (interested s)"
proof (induction items arbitrary: s)
  case Nil
  then show ?case by simp
next
  case (Cons item items)
  have "fst ` set (interested (interest_sweep item s)) \<subseteq> fst ` set (interested s)"
    by (auto simp: interest_sweep_def keys_delete split: prod.splits if_splits)
  with Cons.IH [of "interest_sweep item s"] show ?case by auto
qed

lemma interest_sweeps_sent:
  "sent (foldl (\<lambda>s x. interest_sweep x s) s items) =
   sent s @ concat (map (interest_commands (tick s)) items)"
proof (induction items arbitrary: s)
  case Nil
  then show ?case by simp
next
  case (Cons item items)
  have "tick (interest_sweep item s) = tick s"
    by (simp add: interest_sweep_def split: prod.splits)
  moreover have "sent (interest_sweep item s) = sent s @ interest_commands (tick s) item"
    by (simp add: interest_sweep_def interest_commands_def split: prod.splits)
  ultimately show ?case
    using Cons.IH [of "interest_sweep item s"] by simp
qed

lemma request_sweeps_frame:
  "tick (foldl (\<lambda>s x. request_sweep mi x s) s items) = tick s"
  "metainfo (foldl (\<lambda>s x. request_sweep mi x s) s items) = metainfo s"
  "interested (foldl (\<lambda>s x. request_sweep mi x s) s items) = interested s"
  by (induction items arbitrary: s) (simp_all add: request_sweep_frame)

lemma request_sweeps_sent:
  "sent (foldl (\<lambda>s x. request_sweep mi x s) s items) =
   sent s @ concat (map (request_commands mi (tick s)) items)"
proof (induction items arbitrary: s)
  case Nil
  then show ?case by simp
next
  case (Cons item items)
  have "sent (request_sweep mi item s) = sent s @ request_commands mi (tick s) item"
    by (simp add: request_sweep_def request_commands_def split: prod.splits)
  then show ?case
    using Cons.IH [of "request_sweep mi item s"] by (simp add: request_sweep_frame)
qed

lemma request_sweeps_partial:
  "partial (foldl (\<lambda>s x. request_sweep mi x s) s items) =
   partial s @ map spilled (filter (given_up (tick s)) items)"
proof (induction items arbitrary: s)
  case Nil
  then show ?case by simp
next
  case (Cons item items)
  have "partial (request_sweep mi item s) =
        partial s @ map spilled (filter (given_up (tick s)) [item])"
    by (simp add: request_sweep_def given_up_def spilled_def split: prod.splits)
  then show ?case
    using Cons.IH [of "request_sweep mi item s"] by (simp add: request_sweep_frame)
qed

lemma request_sweeps_other:
  "q \<notin> fst ` set items \<Longrightarrow>
   map_of (requesting (foldl (\<lambda>s x. request_sweep mi x s) s items)) q = map_of (requesting s) q"
proof (induction items arbitrary: s)
  case Nil
  then show ?case by simp
next
  case (Cons item items)
  from Cons.prems have "q \<noteq> fst item" and "q \<notin> fst ` set items" by auto
  then show ?case
    using Cons.IH [of "request_sweep mi item s"] by (simp add: request_sweep_other)
qed

lemma request_sweeps_flags:
  "pp_interested (foldl (\<lambda>s x. request_sweep mi x s) s items) \<subseteq> pp_interested s"
proof (induction items arbitrary: s)
  case Nil
  then show ?case by simp
next
  case (Cons item items)
  have "pp_interested (request_sweep mi item s) \<subseteq> pp_interested s"
    by (auto simp: request_sweep_def split: prod.splits if_splits)
  with Cons.IH [of "request_sweep mi item s"] show ?case by auto
qed

text \<open>What the sweep leaves for one stale entry of the snapshot.\<close>

lemma request_sweeps_entry:
  assumes d: "distinct (map fst items)"
    and m: "(peer, (index, offset, sha1, tick0, retries)) \<in> set items"
    and stale: "tick0 + 5 = tick s"
  shows "let s' = foldl (\<lambda>s x. request_sweep mi x s) s items in
     (retries < MAX_RETRIES \<longrightarrow>
        map_of (requesting s') peer = Some (index, offset, sha1, tick s, retries + 1)) \<and>
     (\<not> retries < MAX_RETRIES \<longrightarrow>
        map_of (requesting s') peer = None \<and> peer \<notin> pp_interested s')"
proof -
  let ?item = "(peer, (index, offset, sha1, tick0, retries))"
  from m obtain xs ys where items: "items = xs @ ?item # ys"
    by (auto dest: split_list)
  with d have nys: "peer \<notin> fst ` set ys"
    by auto
  let ?s1 = "foldl (\<lambda>s x. request_sweep mi x s) s xs"
  let ?s2 = "request_sweep mi ?item ?s1"
  let ?s' = "foldl (\<lambda>s x. request_sweep mi x s) s items"
  have s': "?s' = foldl (\<lambda>s x. request_sweep mi x s) ?s2 ys"
    by (simp add: items)
  have t1: "tick ?s1 = tick s"
    by (rule request_sweeps_frame)
  have look: "map_of (requesting ?s') peer = map_of (requesting ?s2) peer"
    unfolding s' using nys by (rule request_sweeps_other)
  have flags: "pp_interested ?s' \<subseteq> pp_interested ?s2"
    unfolding s' by (rule request_sweeps_flags)
  have retry: "map_of (requesting ?s2) peer = Some (index, offset, sha1, tick s, retries + 1)"
    if "retries < MAX_RETRIES"
    using that stale t1 by (simp add: request_sweep_def update_conv')
  have giveup: "map_of (requesting ?s2) peer = None \<and> peer \<notin> pp_interested ?s2"
    if "\<not> retries < MAX_RETRIES"
    using that stale t1 by (simp add: request_sweep_def delete_conv')
  from look flags retry giveup show ?thesis
    unfolding Let_def by auto
qed

lemma timer_event_sweeps:
  assumes k: "keys_ok s" and dj: "disjoint_ok s" and mi: "metainfo s = Some mi"
  shows "timer_event s =
     Returned
       (foldl (\<lambda>s x. request_sweep mi x s)
          (foldl (\<lambda>s x. interest_sweep x s)
             (s\<lparr>sent := sent s @ [CallLater], tick := tick s + 1\<rparr>) (interested s))
          (requesting s))"
proof -
  let ?s1 = "s\<lparr>sent := sent s @ [CallLater], tick := tick s + 1\<rparr>"
  let ?s2 = "foldl (\<lambda>s x. interest_sweep x s) ?s1 (interested s)"
  from k have di: "distinct (map fst (interested s))" and dr: "distinct (map fst (requesting s))"
    by (simp_all add: keys_ok_def)
  have "\<forall>x \<in> set (interested ?s1). has_key (fst x) (interested ?s1)"
    by (auto simp: has_key_iff)
  with di have first: "stale_interest (interested ?s1) ?s1 = Returned ?s2"
    by (simp add: stale_interest_sweeps)
  have r2: "requesting ?s2 = requesting s"
    by (simp add: interest_sweeps_frame)
  have "snapshot_ok (requesting ?s2) ?s2"
    using dr by (intro snapshot_ok_self) (simp add: r2)
  moreover have "metainfo ?s2 = Some mi"
    using mi by (simp add: interest_sweeps_frame)
  moreover have "\<forall>x \<in> set (requesting ?s2). \<not> has_key (fst x) (interested ?s2)"
  proof
    fix x assume "x \<in> set (requesting ?s2)"
    then have "fst x \<in> fst ` set (requesting s)" by (simp add: r2)
    with dj have "fst x \<notin> fst ` set (interested s)"
      by (auto simp: disjoint_ok_def)
    moreover have "fst ` set (interested ?s2) \<subseteq> fst ` set (interested ?s1)"
      by (rule interest_sweeps_keys)
    ultimately show "\<not> has_key (fst x) (interested ?s2)"
      by (auto simp: has_key_iff)
  qed
  ultimately have "stale_request (requesting ?s2) ?s2 =
      Returned (foldl (\<lambda>s x. request_sweep mi x s) ?s2 (requesting ?s2))"
    by (rule stale_request_sweeps)
  with first show ?thesis
    by (simp add: timer_event_def Let_def r2)
qed

section \<open>The claims\<close>

subsection \<open>C6: the length of a block request\<close>

lemma example_last_piece: "length_of_piece example_metainfo 3 = 1696"
  by (simp add: example_metainfo_def length_of_piece_def is_last_piece_def
      length_of_last_piece_def)

text \<open>
  Claim C6. For an offset inside a piece, \<^verbatim>\<open>_bytes_to_request\<close> returns \<open>BLOCK_SIZE\<close>,
  which is 16384, when at least \<open>BLOCK_SIZE\<close> bytes of the piece remain beyond the
  offset, and otherwise exactly the remaining bytes of the piece; the length of the
  last piece is \<open>total_length - (num_pieces - 1) * piece_length\<close> and that of every other
  piece is \<open>piece_length\<close>.
\<close>

theorem bytes_to_request_correct:
  assumes "0 \<le> offset" and "offset < length_of_piece mi index"
  shows "bytes_to_request mi index offset =
           (if length_of_piece mi index - offset \<ge> BLOCK_SIZE then BLOCK_SIZE
            else length_of_piece mi index - offset)
         \<and> BLOCK_SIZE = 16384
         \<and> length_of_piece mi index =
           (if int index = int (num_pieces mi) - 1
            then total_length mi - (int (num_pieces mi) - 1) * piece_length mi
            else piece_length mi)"
  by (simp add: bytes_to_request_def in_last_block_def length_of_piece_def
      is_last_piece_def length_of_last_piece_def BLOCK_SIZE_def)

theorem bytes_to_request_correct_witness:
  "(0::int) \<le> 0 \<and> 0 < length_of_piece example_metainfo 3
   \<and> bytes_to_request example_metainfo 3 0 = 1696"
proof -
  have h: "(0::int) < length_of_piece example_metainfo 3"
    by (simp add: example_last_piece)
  have "bytes_to_request example_metainfo 3 0 =
           (if length_of_piece example_metainfo 3 - 0 \<ge> BLOCK_SIZE then BLOCK_SIZE
            else length_of_piece example_metainfo 3 - 0)"
    using bytes_to_request_correct [of 0 example_metainfo 3, OF _ h] by blast
  then show ?thesis using h by (simp add: example_last_piece BLOCK_SIZE_def)
qed

subsection \<open>C1: needed and have partition the pieces\<close>

text \<open>
  Claim C1. In every state reached by a successful \<^verbatim>\<open>initialize\<close>, \<^verbatim>\<open>start\<close> and any
  events (whether the handler returned or raised), the keys of \<^verbatim>\<open>_needed\<close> and the
  indices of the set bits of \<^verbatim>\<open>_have\<close> are disjoint and together are
  \<open>{0, ..., num_pieces - 1}\<close>. In particular, a call of \<^verbatim>\<open>peer_sent_block\<close> that
  delivers the last block of the peer's piece with the right hash leaves the index
  out of \<^verbatim>\<open>_needed\<close> and its bit set in \<^verbatim>\<open>_have\<close>.
\<close>

theorem needed_have_partition:
  assumes "reachable digest s" and "metainfo s = Some mi"
  shows "fst ` set (needed s) \<inter> set (findall True (have_bits s)) = {}
    \<and> fst ` set (needed s) \<union> set (findall True (have_bits s)) = {0..<num_pieces mi}
    \<and> (\<forall>peer index begin sha1 t n buf.
          map_of (requesting s) peer = Some (index, begin, sha1, t, n) \<and>
          \<not> begin + int (length buf) < length_of_piece mi index \<and>
          digest (sha1 @ buf) = piece_hash mi index \<longrightarrow>
          \<not> has_key index (needed (state_of (peer_sent_block digest peer index begin buf s))) \<and>
          index < length (have_bits (state_of (peer_sent_block digest peer index begin buf s))) \<and>
          have_bits (state_of (peer_sent_block digest peer index begin buf s)) ! index)"
proof -
  from assms(1) have p: "partition_ok s" and a: "assign_ok s"
    by (rule reachable_partition, rule reachable_assign)
  from p assms(2) have len: "length (have_bits s) = num_pieces mi"
    and keys: "fst ` set (needed s) = set (findall False (have_bits s))"
    by (simp_all add: partition_ok_def)
  have disj: "fst ` set (needed s) \<inter> set (findall True (have_bits s)) = {}"
    by (auto simp: keys set_findall)
  have cover: "fst ` set (needed s) \<union> set (findall True (have_bits s)) = {0..<num_pieces mi}"
    by (auto simp: keys set_findall len)
  show ?thesis
  proof (intro conjI allI impI)
    show "fst ` set (needed s) \<inter> set (findall True (have_bits s)) = {}"
      by (rule disj)
    show "fst ` set (needed s) \<union> set (findall True (have_bits s)) = {0..<num_pieces mi}"
      by (rule cover)
  next
    fix peer index offs sha1 t n buf
    assume h: "map_of (requesting s) peer = Some (index, offs, sha1, t, n) \<and>
          \<not> offs + int (length buf) < length_of_piece mi index \<and>
          digest (sha1 @ buf) = piece_hash mi index"
    from h have h1: "map_of (requesting s) peer = Some (index, offs, sha1, t, n)"
      by (rule conjunct1)
    from h have h2: "\<not> offs + int (length buf) < length_of_piece mi index"
      by (rule conjunct2 [THEN conjunct1])
    from h have h3: "digest (sha1 @ buf) = piece_hash mi index"
      by (rule conjunct2 [THEN conjunct2])
    note v = verified_piece [where digest = digest, OF p a assms(2) h1 h2 h3]
    show "\<not> has_key index
            (needed (state_of (peer_sent_block digest peer index offs buf s)))"
      by (rule v [THEN conjunct1])
    show "index < length (have_bits (state_of (peer_sent_block digest peer index offs buf s)))"
      by (rule v [THEN conjunct2, THEN conjunct1])
    show "have_bits (state_of (peer_sent_block digest peer index offs buf s)) ! index"
      by (rule v [THEN conjunct2, THEN conjunct2])
  qed
qed

lemma piece_received_metainfo: "metainfo (state_of (piece_received index s)) = metainfo s"
  by (simp add: piece_received_def Let_def split: sum.splits)

lemma peer_sent_block_metainfo:
  "metainfo (state_of (peer_sent_block digest peer index begin buf s)) = metainfo s"
proof -
  have req: "metainfo (state_of (request peer s')) = metainfo s'" for s'
    using request_pieces [OF same_pieces_refl] by (simp add: same_pieces_def)
  have chk: "metainfo (state_of (check_interest peer s')) = metainfo s'" for s'
    using check_interest_pieces [OF same_pieces_refl] by (simp add: same_pieces_def)
  have cb: "metainfo (state_of (completion_callback s')) = metainfo s'" for s'
    by (simp add: completion_callback_def split: option.splits bool.splits)
  have tail: "metainfo (state_of (then_do r
      (\<lambda>s3. if needed s3 \<noteq> []
            then check_interest peer (s3\<lparr>requesting := AList.delete peer (requesting s3)\<rparr>)
            else completion_callback (s3\<lparr>requesting := AList.delete peer (requesting s3)\<rparr>))))
      = metainfo (state_of r)" for r
    by (cases r) (simp_all add: chk cb)
  show ?thesis
    by (simp add: peer_sent_block_def Let_def with_metainfo_def req tail
        piece_received_metainfo FileMgr_write_block_def split: option.splits)
qed

lemma same_pieces_metainfo: "same_pieces s s' \<Longrightarrow> metainfo s' = metainfo s"
  by (simp add: same_pieces_def)

lemma handle_metainfo: "metainfo (state_of (handle digest ev s)) = metainfo s"
proof (cases ev)
  case (PeerSentBlock peer index offs buf)
  then show ?thesis by (simp add: peer_sent_block_metainfo)
qed (simp_all add: same_pieces_metainfo [OF handle_addrs_pieces [OF same_pieces_refl]]
    same_pieces_metainfo [OF peer_unconnected_pieces [OF same_pieces_refl]]
    same_pieces_metainfo [OF peer_bitfield_pieces [OF same_pieces_refl]]
    same_pieces_metainfo [OF peer_has_pieces [OF same_pieces_refl]]
    same_pieces_metainfo [OF peer_choked_pieces [OF same_pieces_refl]]
    same_pieces_metainfo [OF peer_unchoked_pieces [OF same_pieces_refl]]
    same_pieces_metainfo [OF timer_event_pieces [OF same_pieces_refl]]
    peer_interested_def peer_not_interested_def peer_request_def peer_canceled_def)

lemma run_metainfo: "metainfo (run digest evs s) = metainfo s"
proof (induction evs arbitrary: s)
  case Nil
  then show ?case by (simp add: run_def)
next
  case (Cons ev evs)
  have "metainfo (run digest evs (state_of (handle digest ev s))) = metainfo s"
    by (simp only: Cons.IH handle_metainfo)
  then show ?case by (simp add: run_def)
qed

lemma ex_started_metainfo: "metainfo ex_started = Some ex_mi"
  by (simp add: ex_started_def start_def initialize_def success_def TorrentMgr_init_def
      connect_to_peers_def)

lemma ex_requesting_metainfo: "metainfo ex_requesting = Some ex_mi"
  by (simp only: ex_requesting_def run_metainfo ex_started_metainfo)

lemma ex_requesting_entry: "map_of (requesting ex_requesting) 1 = Some (0, 0, [], 1, 0)"
  by code_simp

theorem needed_have_partition_witness:
  "reachable ex_digest ex_requesting \<and> metainfo ex_requesting = Some ex_mi
   \<and> fst ` set (needed ex_requesting) = {0, 1}
   \<and> set (findall True (have_bits ex_requesting)) = {}
   \<and> have_bits (state_of (peer_sent_block ex_digest 1 0 0 ''hello'' ex_requesting)) ! 0
   \<and> \<not> has_key 0 (needed (state_of (peer_sent_block ex_digest 1 0 0 ''hello'' ex_requesting)))"
proof -
  have last: "\<not> 0 + int (length ''hello'') < length_of_piece ex_mi 0"
    by (simp add: length_of_piece_def is_last_piece_def ex_mi_def)
  have hash: "ex_digest ([] @ ''hello'') = piece_hash ex_mi 0"
    by (simp add: ex_digest_def ex_mi_def)
  have "needed ex_requesting = [(0, (1, [1])), (1, (1, [1]))]"
    by code_simp
  then have n: "fst ` set (needed ex_requesting) = {0, 1}"
    by simp
  have "findall True (have_bits ex_requesting) = []"
    by code_simp
  then have h: "set (findall True (have_bits ex_requesting)) = {}"
    by simp
  note inst = needed_have_partition [OF ex_requesting_reachable ex_requesting_metainfo]
  note block = inst [THEN conjunct2, THEN conjunct2, rule_format,
      of 1 0 0 "[]" 1 0 "''hello''", OF conjI [OF ex_requesting_entry conjI [OF last hash]]]
  have "\<not> has_key 0 (needed (state_of (peer_sent_block ex_digest 1 0 0 ''hello'' ex_requesting)))"
    by (rule block [THEN conjunct1])
  moreover
  have "have_bits (state_of (peer_sent_block ex_digest 1 0 0 ''hello'' ex_requesting)) ! 0"
    by (rule block [THEN conjunct2, THEN conjunct2])
  ultimately show ?thesis
    using ex_requesting_reachable ex_requesting_metainfo n h by (simp only: simp_thms)
qed

subsection \<open>C2: no piece is assigned twice\<close>

text \<open>
  Claim C2. In every state reached by a successful \<^verbatim>\<open>initialize\<close>, \<^verbatim>\<open>start\<close> and any
  events, the piece indices held in the values of \<^verbatim>\<open>_interested\<close>, in the values of
  \<^verbatim>\<open>_requesting\<close> and in the entries of \<^verbatim>\<open>_partial\<close> are pairwise distinct: a piece is
  assigned to at most one peer or suspended partial entry.
\<close>

theorem no_piece_assigned_twice:
  assumes "reachable digest s"
  shows "distinct (assigned_pieces s)"
  using reachable_assign [OF assms] by (simp add: assign_ok_def)

theorem no_piece_assigned_twice_witness:
  "reachable ex_digest ex_two_assigned \<and> distinct (assigned_pieces ex_two_assigned)
   \<and> assigned_pieces ex_two_assigned = [1, 0]"
proof -
  have "assigned_pieces ex_two_assigned = [1, 0]"
    by code_simp
  with no_piece_assigned_twice [OF ex_two_assigned_reachable] ex_two_assigned_reachable
  show ?thesis by (simp only: simp_thms)
qed

subsection \<open>C3: a have message for a piece that does not exist\<close>

lemma ex_requesting_peers: "peers ex_requesting = [1, 2]"
  by code_simp

lemma ex_requesting_sent:
  "sent ex_requesting =
     [TrackerStart, CallLater, GetPeers 20, SendInterested 1, SendRequest 1 0 0 5]"
  by code_simp

lemma ex_mi_num_pieces: "num_pieces ex_mi = 2"
  by (simp add: ex_mi_def)

text \<open>
  Claim C3, as stated, fails: \<^verbatim>\<open>peer_has\<close> with an index that is not below
  \<open>num_pieces\<close> raises IndexError to its caller, sends no command (the connection is
  not dropped, no replacement is asked for) and keeps the peer.
\<close>

theorem peer_has_out_of_range_counterexample:
  "raised (peer_has 1 2 ex_requesting) = Some IndexError
   \<and> DropConnection 1 \<notin> set (sent (state_of (peer_has 1 2 ex_requesting)))
   \<and> 1 \<in> set (peers (state_of (peer_has 1 2 ex_requesting)))
   \<and> sent (state_of (peer_has 1 2 ex_requesting)) = sent ex_requesting"
proof -
  have "peer_has 1 2 ex_requesting = Raised IndexError ex_requesting"
    by (simp add: peer_has_def with_metainfo_def ex_requesting_metainfo ex_mi_num_pieces)
  then show ?thesis
    by (simp add: ex_requesting_peers ex_requesting_sent)
qed

text \<open>
  Claim C3, amended. When \<^verbatim>\<open>peer_has(peer, index)\<close> is called with
  \<open>index \<ge> num_pieces\<close>, the handler raises IndexError to its caller and leaves the
  coordinator as it was: no command is sent and the peer is not removed.
\<close>

theorem peer_has_out_of_range:
  assumes "metainfo s = Some mi" and "index \<ge> num_pieces mi"
  shows "peer_has peer index s = Raised IndexError s"
  using assms by (simp add: peer_has_def with_metainfo_def)

theorem peer_has_out_of_range_witness:
  "metainfo ex_requesting = Some ex_mi \<and> num_pieces ex_mi \<le> 2
   \<and> peer_has 1 2 ex_requesting = Raised IndexError ex_requesting"
proof -
  have "num_pieces ex_mi \<le> 2"
    by (simp add: ex_mi_num_pieces)
  with peer_has_out_of_range [OF ex_requesting_metainfo this, of 1] ex_requesting_metainfo
  show ?thesis by (simp only: simp_thms)
qed

subsection \<open>C7: a block that was not asked for\<close>

text \<open>
  Claim C7. When \<^verbatim>\<open>peer_sent_block(peer, index, begin, buf)\<close> is called for a peer in
  \<^verbatim>\<open>_requesting\<close> and \<open>index\<close> is not the reserved piece or \<open>begin\<close> is not the number
  of bytes received, the handler returns with the coordinator unchanged: no block is
  written, and the entry of the peer, with its hash state, stays as it is.
\<close>

theorem misdelivered_block_ignored:
  assumes "map_of (requesting s) peer = Some (piece, received_bytes, sha1, tick0, retries)"
    and "index \<noteq> piece \<or> begin \<noteq> received_bytes"
  shows "peer_sent_block digest peer index begin buf s = Returned s"
  using assms by (auto simp add: peer_sent_block_def)

theorem misdelivered_block_ignored_witness:
  "map_of (requesting ex_requesting) 1 = Some (0, 0, [], 1, 0) \<and> (16384::int) \<noteq> 0
   \<and> peer_sent_block ex_digest 1 0 16384 ''later'' ex_requesting = Returned ex_requesting"
proof -
  have "(0::nat) \<noteq> 0 \<or> (16384::int) \<noteq> 0"
    by simp
  from misdelivered_block_ignored [OF ex_requesting_entry this]
  have "peer_sent_block ex_digest 1 0 16384 ''later'' ex_requesting = Returned ex_requesting" .
  with ex_requesting_entry show ?thesis by simp
qed

subsection \<open>C10: the name of an uninitialized coordinator\<close>

lemma ex_waiting_state: "state ex_waiting = Uninitialized"
  by (simp add: ex_waiting_def initialize_def TorrentMgr_init_def)

lemma ex_waiting_metainfo: "metainfo ex_waiting = Some ex_mi"
  by (simp add: ex_waiting_def initialize_def TorrentMgr_init_def)

text \<open>
  Claim C10, as stated, fails: once \<^verbatim>\<open>initialize\<close> has loaded the metainfo, the state
  is still Uninitialized until the tracker answers, and \<^verbatim>\<open>name()\<close> returns the name.
\<close>

theorem name_uninitialized_counterexample:
  "state ex_waiting = Uninitialized \<and> name ex_waiting = Inr ''example''
   \<and> info_hash ex_waiting = Inl TorrentMgrError"
  by (simp add: ex_waiting_state ex_waiting_metainfo name_def info_hash_def ex_mi_def)

text \<open>
  Claim C10, amended. \<^verbatim>\<open>name()\<close> performs no lifecycle-state check: its result does not
  depend on the state. While the attribute \<^verbatim>\<open>_metainfo\<close> has not been created, as on a
  coordinator that \<^verbatim>\<open>__init__\<close> has just built or one whose \<^verbatim>\<open>initialize\<close> failed to load
  the descriptor (which leaves the object as it was), it fails with AttributeError,
  whereas \<^verbatim>\<open>info_hash()\<close> and \<^verbatim>\<open>percent()\<close> raise TorrentMgrError in every Uninitialized
  state. Once the metainfo is loaded \<^verbatim>\<open>name()\<close> returns the name: \<^verbatim>\<open>initialize\<close> on an
  Uninitialized coordinator loads it and leaves the state Uninitialized, so \<^verbatim>\<open>name()\<close>
  returns the name while the state is still Uninitialized.
\<close>

theorem name_unguarded:
  "name (s\<lparr>state := st\<rparr>) = name s
   \<and> (metainfo s = None \<longrightarrow> name s = Inl AttributeError)
   \<and> (state s = Uninitialized \<longrightarrow>
        info_hash s = Inl TorrentMgrError \<and> percent s = Inl TorrentMgrError)
   \<and> metainfo TorrentMgr_init = None \<and> state TorrentMgr_init = Uninitialized
   \<and> snd (initialize RaisesValueError hv s) = s \<and> snd (initialize RaisesIOError hv s) = s
   \<and> (metainfo s = Some mi \<longrightarrow> name s = Inr (name_of mi))
   \<and> (state s = Uninitialized \<longrightarrow>
        state (snd (initialize (Loaded mi) hv s)) = Uninitialized \<and>
        name (snd (initialize (Loaded mi) hv s)) = Inr (name_of mi))"
  by (simp add: name_def info_hash_def percent_def TorrentMgr_init_def initialize_def)

theorem name_unguarded_witness:
  "metainfo TorrentMgr_init = None \<and> state TorrentMgr_init = Uninitialized
   \<and> name TorrentMgr_init = Inl AttributeError
   \<and> info_hash TorrentMgr_init = Inl TorrentMgrError
   \<and> percent TorrentMgr_init = Inl TorrentMgrError
   \<and> name (snd (initialize RaisesIOError [False, False] TorrentMgr_init)) = Inl AttributeError
   \<and> state ex_waiting = Uninitialized \<and> metainfo ex_waiting = Some ex_mi
   \<and> name ex_waiting = Inr ''example''
   \<and> info_hash ex_waiting = Inl TorrentMgrError"
proof -
  note fresh = name_unguarded [where s = TorrentMgr_init and st = Uninitialized
      and hv = "[False, False]" and mi = ex_mi]
  note loaded = name_unguarded [where s = ex_waiting and st = Uninitialized
      and hv = "[False, False]" and mi = ex_mi]
  have m0: "metainfo TorrentMgr_init = None" and s0: "state TorrentMgr_init = Uninitialized"
    by (simp_all add: TorrentMgr_init_def)
  have n0: "name TorrentMgr_init = Inl AttributeError"
    using fresh [THEN conjunct2, THEN conjunct1] m0 by (rule mp)
  have h0: "info_hash TorrentMgr_init = Inl TorrentMgrError \<and>
            percent TorrentMgr_init = Inl TorrentMgrError"
    using fresh [THEN conjunct2, THEN conjunct2, THEN conjunct1] s0 by (rule mp)
  note rest = fresh [THEN conjunct2, THEN conjunct2, THEN conjunct2, THEN conjunct2,
      THEN conjunct2]
  note rest' = loaded [THEN conjunct2, THEN conjunct2, THEN conjunct2, THEN conjunct2,
      THEN conjunct2]
  have "snd (initialize RaisesIOError [False, False] TorrentMgr_init) = TorrentMgr_init"
    by (rule rest [THEN conjunct2, THEN conjunct1])
  with n0 have f0: "name (snd (initialize RaisesIOError [False, False] TorrentMgr_init)) =
      Inl AttributeError"
    by (simp only:)
  have "name ex_waiting = Inr (name_of ex_mi)"
    using rest' [THEN conjunct2, THEN conjunct2, THEN conjunct1] ex_waiting_metainfo
    by (rule mp)
  also have "name_of ex_mi = ''example''"
    by (simp add: ex_mi_def)
  finally have n1: "name ex_waiting = Inr ''example''" .
  have h1: "info_hash ex_waiting = Inl TorrentMgrError"
    using loaded [THEN conjunct2, THEN conjunct2, THEN conjunct1] ex_waiting_state
    by (rule mp [THEN conjunct1])
  from h0 have h01: "info_hash TorrentMgr_init = Inl TorrentMgrError"
    and h02: "percent TorrentMgr_init = Inl TorrentMgrError"
    by (rule conjunct1, rule conjunct2)
  from m0 s0 n0 h01 h02 f0 ex_waiting_state ex_waiting_metainfo n1 h1 show ?thesis
    by (intro conjI)
qed

subsection \<open>C4: rarest first\<close>

lemma candidate_unreserved: "i \<in> candidates s peer \<Longrightarrow> reserved_piece s p \<noteq> Some i"
  by (auto simp: candidates_def reserved_piece_def split: option.splits dest!: map_of_SomeD)

lemma ex_started3_reachable: "reachable digest ex_started3"
  unfolding ex_started3_def
  by (intro reach_start reach_initialize) (simp_all add: TorrentMgr_init_def ex_mi3_def)

lemma ex_started3_state: "state ex_started3 = Started"
  by (simp add: ex_started3_def start_def initialize_def success_def TorrentMgr_init_def
      connect_to_peers_def)

lemma ex_reserved_reachable: "reachable ex_digest ex_reserved"
  unfolding ex_reserved_def
  by (intro reachable_run ex_started3_reachable ex_started3_state)

text \<open>
  Claim C4. When \<^verbatim>\<open>_check_interest\<close> runs for a peer that is in neither \<^verbatim>\<open>_interested\<close>
  nor \<^verbatim>\<open>_requesting\<close> and no entry of \<^verbatim>\<open>_partial\<close> is for a piece that the peer
  advertises and that is still needed, the piece it reserves for the peer, if any, is a
  candidate (advertised by the peer, still needed, held by no entry of \<^verbatim>\<open>_interested\<close>
  or \<^verbatim>\<open>_requesting\<close>) whose rarity count in \<^verbatim>\<open>_needed\<close> is minimal among the candidates;
  in particular the piece was reserved for no peer before the call.
\<close>

theorem rarest_first:
  assumes "reachable digest s"
    and "\<not> has_key peer (interested s)" and "\<not> has_key peer (requesting s)"
    and "\<forall>(i, offset, sha1) \<in> set (partial s).
           \<not> (advertises s peer i \<and> has_key i (needed s))"
    and "reserved_piece (state_of (check_interest peer s)) peer = Some index"
  shows "index \<in> candidates s peer
    \<and> (\<forall>j \<in> candidates s peer. rarity s index \<le> rarity s j)
    \<and> (\<forall>p. reserved_piece s p \<noteq> Some index)"
proof -
  have c: "index \<in> candidates s peer \<and> (\<forall>j \<in> candidates s peer. rarity s index \<le> rarity s j)"
    using reachable_partition [OF assms(1)] reachable_avail [OF assms(1)] assms(2-5)
    by (rule check_interest_rarest)
  from c have c1: "index \<in> candidates s peer"
    by (rule conjunct1)
  from c have c2: "\<forall>j \<in> candidates s peer. rarity s index \<le> rarity s j"
    by (rule conjunct2)
  from c1 have c3: "\<forall>p. reserved_piece s p \<noteq> Some index"
    by (intro allI candidate_unreserved)
  from c1 c2 c3 show ?thesis
    by (intro conjI)
qed

theorem rarest_first_witness:
  "reachable ex_digest ex_reserved
   \<and> \<not> has_key 2 (interested ex_reserved) \<and> \<not> has_key 2 (requesting ex_reserved)
   \<and> partial ex_reserved = []
   \<and> reserved_piece (state_of (check_interest 2 ex_reserved)) 2 = Some 2
   \<and> candidates ex_reserved 2 = {1, 2}
   \<and> advertises ex_reserved 2 0 \<and> reserved_piece ex_reserved 1 = Some 0
   \<and> rarity ex_reserved 0 = 2 \<and> rarity ex_reserved 2 = 3 \<and> rarity ex_reserved 1 = 4
   \<and> rarity ex_reserved 2 \<le> rarity ex_reserved 1
   \<and> reserved_piece ex_reserved 1 \<noteq> Some 2"
proof -
  have i: "\<not> has_key 2 (interested ex_reserved)" by code_simp
  have r: "\<not> has_key 2 (requesting ex_reserved)" by code_simp
  have p: "partial ex_reserved = []" by code_simp
  then have np: "\<forall>(i, offset, sha1) \<in> set (partial ex_reserved).
           \<not> (advertises ex_reserved 2 i \<and> has_key i (needed ex_reserved))"
    by simp
  have res: "reserved_piece (state_of (check_interest 2 ex_reserved)) 2 = Some 2"
    by code_simp
  have n: "needed ex_reserved = [(0, (2, [1, 2])), (1, (4, [3, 4, 5, 2])), (2, (3, [3, 4, 2]))]"
    by code_simp
  have ie: "interested ex_reserved = [(1, (0, 0, [], 1))]" by code_simp
  have re: "requesting ex_reserved = []" by code_simp
  have a0: "advertises ex_reserved 2 0" by code_simp
  have a1: "advertises ex_reserved 2 1" by code_simp
  have a2: "advertises ex_reserved 2 2" by code_simp
  from n ie re a1 a2 have c: "candidates ex_reserved 2 = {1, 2}"
    by (auto simp: candidates_def)
  from ie have r1: "reserved_piece ex_reserved 1 = Some 0"
    by (simp add: reserved_piece_def)
  from n have q0: "rarity ex_reserved 0 = 2" and q2: "rarity ex_reserved 2 = 3"
    and q1: "rarity ex_reserved 1 = 4"
    by (simp_all add: rarity_def)
  note inst = rarest_first [OF ex_reserved_reachable i r np res]
  note least = inst [THEN conjunct2, THEN conjunct1, THEN bspec, of 1]
  note unres = inst [THEN conjunct2, THEN conjunct2, THEN spec, of 1]
  from c have le: "rarity ex_reserved 2 \<le> rarity ex_reserved 1"
    by (intro least) simp
  from ex_reserved_reachable i r p res c a0 r1 q0 q2 q1 le unres show ?thesis
    by (intro conjI)
qed

subsection \<open>C8: stale requests\<close>

text \<open>
  Claim C8. A \<^verbatim>\<open>timer_event\<close> returns and advances the tick by one. For an entry of
  \<^verbatim>\<open>_requesting\<close> whose tick plus 5 is the new tick: with fewer than \<open>MAX_RETRIES\<close>
  (two) retries, the request is sent to the peer again and the entry keeps its piece,
  offset and hash state, with the tick reset and one more retry; otherwise the entry
  is appended to \<^verbatim>\<open>_partial\<close> and removed from \<^verbatim>\<open>_requesting\<close>, and the peer is sent
  not-interested, followed by one request for a replacement connection. The commands
  of the whole call are those of the stale interests and then, entry by entry, those
  of the stale requests; nothing else is sent and nothing else is appended to
  \<^verbatim>\<open>_partial\<close>.
\<close>

theorem stale_request_handling:
  assumes "reachable digest s" and "metainfo s = Some mi"
    and "map_of (requesting s) peer = Some (index, offset, sha1, tick0, retries)"
    and "tick0 + 5 = tick s + 1"
  shows "raised (timer_event s) = None
    \<and> tick (state_of (timer_event s)) = tick s + 1
    \<and> (retries < MAX_RETRIES \<longrightarrow>
         map_of (requesting (state_of (timer_event s))) peer =
           Some (index, offset, sha1, tick s + 1, retries + 1) \<and>
         request_commands mi (tick s + 1) (peer, (index, offset, sha1, tick0, retries)) =
           [SendRequest peer index offset (bytes_to_request mi index offset)])
    \<and> (\<not> retries < MAX_RETRIES \<longrightarrow>
         map_of (requesting (state_of (timer_event s))) peer = None \<and>
         (index, offset, sha1) \<in> set (partial (state_of (timer_event s))) \<and>
         peer \<notin> pp_interested (state_of (timer_event s)) \<and>
         request_commands mi (tick s + 1) (peer, (index, offset, sha1, tick0, retries)) =
           [SendNotInterested peer, GetPeers 1])
    \<and> sent (state_of (timer_event s)) =
         sent s @ [CallLater]
         @ concat (map (interest_commands (tick s + 1)) (interested s))
         @ concat (map (request_commands mi (tick s + 1)) (requesting s))
    \<and> partial (state_of (timer_event s)) =
         partial s @ map spilled (filter (given_up (tick s + 1)) (requesting s))"
proof -
  let ?item = "(peer, (index, offset, sha1, tick0, retries))"
  let ?s1 = "s\<lparr>sent := sent s @ [CallLater], tick := tick s + 1\<rparr>"
  let ?s2 = "foldl (\<lambda>s x. interest_sweep x s) ?s1 (interested s)"
  let ?s3 = "foldl (\<lambda>s x. request_sweep mi x s) ?s2 (requesting s)"
  from assms(1) have k: "keys_ok s" and dj: "disjoint_ok s"
    by (simp_all add: reachable_disjoint reachable_assign [unfolded assign_ok_def])
  have ret: "timer_event s = Returned ?s3"
    using k dj assms(2) by (rule timer_event_sweeps)
  have t2: "tick ?s2 = tick s + 1"
    by (simp add: interest_sweeps_frame)
  have t3: "tick ?s3 = tick s + 1"
    by (simp add: request_sweeps_frame t2)
  have sent3: "sent ?s3 = sent s @ [CallLater]
         @ concat (map (interest_commands (tick s + 1)) (interested s))
         @ concat (map (request_commands mi (tick s + 1)) (requesting s))"
    by (simp add: request_sweeps_sent interest_sweeps_sent t2)
  have part3: "partial ?s3 =
      partial s @ map spilled (filter (given_up (tick s + 1)) (requesting s))"
    by (simp add: request_sweeps_partial interest_sweeps_frame t2)
  from assms(3) have m: "?item \<in> set (requesting s)"
    by (rule map_of_SomeD)
  from k have dr: "distinct (map fst (requesting s))"
    by (simp add: keys_ok_def)
  have stale: "tick0 + 5 = tick ?s2"
    using assms(4) t2 by simp
  note entry = request_sweeps_entry [OF dr m stale, of mi, unfolded Let_def t2]
  have gave: "(index, offset, sha1) \<in> set (partial ?s3)" if "\<not> retries < MAX_RETRIES"
  proof -
    from that assms(4) have "given_up (tick s + 1) ?item"
      by (simp add: given_up_def)
    with m have "spilled ?item \<in> set (map spilled (filter (given_up (tick s + 1)) (requesting s)))"
      by auto
    then show ?thesis
      by (simp add: part3 spilled_def)
  qed
  have cmds: "request_commands mi (tick s + 1) ?item =
      (if retries < MAX_RETRIES
       then [SendRequest peer index offset (bytes_to_request mi index offset)]
       else [SendNotInterested peer, GetPeers 1])"
    using assms(4) by (simp add: request_commands_def)
  show ?thesis
    unfolding ret state_of.simps raised.simps
    using t3 sent3 part3 entry gave cmds by auto
qed

lemma ex_silent_reachable: "reachable ex_digest ex_silent"
  unfolding ex_silent_def
  by (intro reachable_run ex_requesting_reachable ex_requesting_state)

lemma ex_silent_long_reachable: "reachable ex_digest ex_silent_long"
  unfolding ex_silent_long_def
  by (intro reachable_run ex_requesting_reachable ex_requesting_state)

lemma ex_silent_metainfo: "metainfo ex_silent = Some ex_mi"
  by (simp only: ex_silent_def run_metainfo ex_requesting_metainfo)

lemma ex_silent_long_metainfo: "metainfo ex_silent_long = Some ex_mi"
  by (simp only: ex_silent_long_def run_metainfo ex_requesting_metainfo)

theorem stale_request_handling_witness:
  "reachable ex_digest ex_silent \<and> metainfo ex_silent = Some ex_mi
   \<and> map_of (requesting ex_silent) 1 = Some (0, 0, [], 1, 0) \<and> tick ex_silent = 5
   \<and> map_of (requesting (state_of (timer_event ex_silent))) 1 = Some (0, 0, [], 6, 1)
   \<and> sent (state_of (timer_event ex_silent)) = sent ex_silent @ [CallLater, SendRequest 1 0 0 5]
   \<and> reachable ex_digest ex_silent_long
   \<and> map_of (requesting ex_silent_long) 1 = Some (0, 0, [], 11, 2) \<and> tick ex_silent_long = 15
   \<and> map_of (requesting (state_of (timer_event ex_silent_long))) 1 = None
   \<and> partial (state_of (timer_event ex_silent_long)) = [(0, 0, [])]
   \<and> sent (state_of (timer_event ex_silent_long)) =
       sent ex_silent_long @ [CallLater, SendNotInterested 1, GetPeers 1]"
proof -
  have e1: "map_of (requesting ex_silent) 1 = Some (0, 0, [], 1, 0)" by code_simp
  have t1: "tick ex_silent = 5" by code_simp
  have i1: "interested ex_silent = []" by code_simp
  have r1: "requesting ex_silent = [(1, (0, 0, [], 1, 0))]" by code_simp
  have st1: "(1::int) + 5 = tick ex_silent + 1" by (simp add: t1)
  note a = stale_request_handling [OF ex_silent_reachable ex_silent_metainfo e1 st1]
  have lt: "(0::int) < MAX_RETRIES" by (simp add: MAX_RETRIES_def)
  have b2r: "bytes_to_request ex_mi 0 0 = 5"
    by (simp add: bytes_to_request_def in_last_block_def length_of_piece_def
        is_last_piece_def ex_mi_def BLOCK_SIZE_def)
  from a lt have a1: "map_of (requesting (state_of (timer_event ex_silent))) 1 =
      Some (0, 0, [], 6, 1)"
    by (simp add: t1)
  from a have a2: "sent (state_of (timer_event ex_silent)) =
      sent ex_silent @ [CallLater, SendRequest 1 0 0 5]"
    by (simp add: t1 i1 r1 request_commands_def MAX_RETRIES_def b2r)
  have e2: "map_of (requesting ex_silent_long) 1 = Some (0, 0, [], 11, 2)" by code_simp
  have t2: "tick ex_silent_long = 15" by code_simp
  have i2: "interested ex_silent_long = []" by code_simp
  have r2: "requesting ex_silent_long = [(1, (0, 0, [], 11, 2))]" by code_simp
  have p2: "partial ex_silent_long = []" by code_simp
  have st2: "(11::int) + 5 = tick ex_silent_long + 1" by (simp add: t2)
  note b = stale_request_handling [OF ex_silent_long_reachable ex_silent_long_metainfo e2 st2]
  have ge: "\<not> (2::int) < MAX_RETRIES" by (simp add: MAX_RETRIES_def)
  from b ge have b1: "map_of (requesting (state_of (timer_event ex_silent_long))) 1 = None"
    by simp
  from b have b2: "partial (state_of (timer_event ex_silent_long)) = [(0, 0, [])]"
    by (simp add: t2 r2 p2 given_up_def spilled_def MAX_RETRIES_def)
  from b have b3: "sent (state_of (timer_event ex_silent_long)) =
       sent ex_silent_long @ [CallLater, SendNotInterested 1, GetPeers 1]"
    by (simp add: t2 i2 r2 request_commands_def MAX_RETRIES_def)
  from ex_silent_reachable ex_silent_metainfo e1 t1 a1 a2 ex_silent_long_reachable e2 t2 b1 b2 b3
  show ?thesis by (simp only: simp_thms)
qed

subsection \<open>C9: a second bitfield\<close>

text \<open>
  Claim C9 does not hold of the code. After a second bitfield the bitfield of the peer
  is the new one, but \<^verbatim>\<open>peer_bitfield\<close> only ever adds the peer to the peer lists of
  \<^verbatim>\<open>_needed\<close>: piece 0, which the peer no longer advertises, still counts the peer,
  whereas after the second bitfield alone its count is 0 and its peer list empty.
\<close>

theorem second_bitfield_merges:
  "map_of (bitfields ex_two_bitfields) 1 = Some [False, True]
   \<and> map_of (bitfields ex_second_bitfield_only) 1 = Some [False, True]
   \<and> map_of (needed ex_two_bitfields) 0 = Some (1, [1])
   \<and> map_of (needed ex_second_bitfield_only) 0 = Some (0, [])
   \<and> rarity ex_two_bitfields 0 = 1 \<and> \<not> advertises ex_two_bitfields 1 0"
proof -
  have "bitfields ex_two_bitfields = [(1, [False, True]), (2, [False, False])]"
    by code_simp
  moreover have "bitfields ex_second_bitfield_only = [(1, [False, True]), (2, [False, False])]"
    by code_simp
  moreover have "needed ex_two_bitfields = [(0, (1, [1])), (1, (1, [1]))]"
    by code_simp
  moreover have "needed ex_second_bitfield_only = [(0, (0, [])), (1, (1, [1]))]"
    by code_simp
  ultimately show ?thesis
    by (simp add: rarity_def advertises_def)
qed

end
